theory Spec2Isabelle
  imports Complex_Main
begin

section \<open>The client-side event-collection pipeline (useExperimentLogger.ts)\<close>

text \<open>
  The hook \<^verbatim>\<open>useExperimentLogger\<close> keeps its state in React refs and mutates it from
  DOM callbacks and two timers. The embedding threads that state explicitly as a record.
  JavaScript numbers are modelled exactly: counters and millisecond clocks as integers,
  scroll offsets and percentages as rationals (no rounding error, no NaN; the DOM hands out
  finite numbers only). Identifiers, labels and the strings the code itself builds are lists
  of characters; text read from DOM elements is a list of UTF-16 code units.
\<close>

subsection \<open>The ambient browser state a handler reads\<close>

record env =
  now :: int                    \<comment> \<open>\<^verbatim>\<open>Date.now()\<close>, read once per synchronous handler run\<close>
  root_scrollTop :: rat         \<comment> \<open>\<^verbatim>\<open>document.documentElement.scrollTop\<close>\<close>
  body_scrollTop :: rat         \<comment> \<open>\<^verbatim>\<open>document.body.scrollTop\<close>\<close>
  root_scrollHeight :: int
  body_scrollHeight :: int
  root_clientHeight :: int
  innerHeight :: int
  innerWidth :: int
  visibilityState :: string     \<comment> \<open>\<^verbatim>\<open>document.visibilityState\<close>\<close>
  href :: string                \<comment> \<open>\<^verbatim>\<open>window.location.href\<close>\<close>
  userAgent :: string
  onLine :: bool

subsection \<open>Metrics Extractor: getScrollMetrics\<close>

record ScrollMetrics =
  scrollTop :: rat
  scrollHeight :: int
  clientHeight :: int
  maxScrollable :: int
  depthPct :: rat

text \<open>\<^verbatim>\<open>a || b || 0\<close> on numbers: the first operand that is not zero, else 0.\<close>

definition getScrollMetrics :: "env \<Rightarrow> ScrollMetrics" where
  "getScrollMetrics e =
     (let st = (if root_scrollTop e \<noteq> 0 then root_scrollTop e
                else if body_scrollTop e \<noteq> 0 then body_scrollTop e else 0);
          sh = max (max (root_scrollHeight e) (body_scrollHeight e)) 1;
          ch = max (max (root_clientHeight e) (innerHeight e)) 1;
          ms = max (sh - ch) 1;
          dp = min 100 (max 0 ((st / of_int ms) * 100))
      in \<lparr>scrollTop = st, scrollHeight = sh, clientHeight = ch, maxScrollable = ms,
          depthPct = dp\<rparr>)"

text \<open>The formula as the specification words it.\<close>

definition clamp :: "rat \<Rightarrow> rat \<Rightarrow> rat \<Rightarrow> rat" where
  "clamp lo hi x = (if x < lo then lo else if hi < x then hi else x)"

definition spec_depthPct :: "rat \<Rightarrow> int \<Rightarrow> int \<Rightarrow> rat" where
  "spec_depthPct st sh ch = clamp 0 100 (st / of_int (max (sh - ch) 1) * 100)"

subsection \<open>JavaScript strings and numbers\<close>

text \<open>
  Text read from the DOM is a list of UTF-16 code units, each a number (below 65536 in the
  browser; nothing here depends on the bound). \<^verbatim>\<open>utf16\<close> gives the code units of a
  literal of the source.
\<close>

type_synonym jsstring = "nat list"

definition utf16 :: "string \<Rightarrow> jsstring" where
  "utf16 s = map of_char s"

text \<open>
  \<^verbatim>\<open>a || b\<close> on optional strings: the left operand when it is truthy (defined and not
  empty), else the right one.
\<close>

definition truthy :: "'a list option \<Rightarrow> bool" where
  "truthy v = (case v of None \<Rightarrow> False | Some x \<Rightarrow> x \<noteq> [])"

definition js_or :: "'a list option \<Rightarrow> 'a list option \<Rightarrow> 'a list option" where
  "js_or a b = (if truthy a then a else b)"

definition js_or_str :: "'a list option \<Rightarrow> 'a list \<Rightarrow> 'a list" where
  "js_or_str a d = (case a of None \<Rightarrow> d | Some x \<Rightarrow> if x \<noteq> [] then x else d)"

text \<open>
  The class \<^verbatim>\<open>\s\<close> of a regular expression: TAB, LF, VT, FF, CR, space, NBSP, U+1680,
  U+2000 to U+200A, U+2028, U+2029, U+202F, U+205F, U+3000 and U+FEFF.
\<close>

definition is_ws :: "nat \<Rightarrow> bool" where
  "is_ws c =
     (c \<in> {9, 10, 11, 12, 13, 32, 160, 5760, 8232, 8233, 8239, 8287, 12288, 65279}
      \<or> (8192 \<le> c \<and> c \<le> 8202))"

text \<open>\<^verbatim>\<open>s.replace(/\s+/g, ' ')\<close>: every maximal run of whitespace becomes one space.\<close>

function collapse_ws :: "jsstring \<Rightarrow> jsstring" where
  "collapse_ws [] = []"
| "collapse_ws (c # cs) =
     (if is_ws c then 32 # collapse_ws (dropWhile is_ws cs) else c # collapse_ws cs)"
  by pat_completeness auto
termination
  by (relation "measure length") (auto simp: length_dropWhile_le less_Suc_eq_le)

text \<open>
  A whitespace-collapsed string: a whitespace code unit in it is a space (32), and is not
  followed by another whitespace code unit.
\<close>

fun ws_collapsed :: "jsstring \<Rightarrow> bool" where
  "ws_collapsed [] = True"
| "ws_collapsed [c] = (is_ws c \<longrightarrow> c = 32)"
| "ws_collapsed (c # d # cs) =
     ((is_ws c \<longrightarrow> c = 32 \<and> \<not> is_ws d) \<and> ws_collapsed (d # cs))"

text \<open>
  \<^verbatim>\<open>toLowerCase\<close> on the letters of ASCII and Latin-1; the case mapping of the code
  units above 255 is left out (they stay as they are).
\<close>

definition lower_char :: "nat \<Rightarrow> nat" where
  "lower_char n =
     (if (65 \<le> n \<and> n \<le> 90) \<or> (192 \<le> n \<and> n \<le> 214) \<or> (216 \<le> n \<and> n \<le> 222)
      then n + 32 else n)"

definition toLowerCase :: "jsstring \<Rightarrow> jsstring" where
  "toLowerCase s = map lower_char s"

text \<open>Decimal rendering of integers, as a template literal prints them.\<close>

definition digit_char :: "nat \<Rightarrow> char" where
  "digit_char d = char_of (48 + d)"

function string_of_nat :: "nat \<Rightarrow> string" where
  "string_of_nat n =
     (if n < 10 then [digit_char n] else string_of_nat (n div 10) @ [digit_char (n mod 10)])"
  by pat_completeness auto
termination
  by (relation "measure id") auto

declare string_of_nat.simps [simp del]

definition string_of_int :: "int \<Rightarrow> string" where
  "string_of_int i =
     (if i < 0 then CHR ''-'' # string_of_nat (nat (- i)) else string_of_nat (nat i))"

text \<open>
  \<^verbatim>\<open>Math.round\<close> rounds half up. \<^verbatim>\<open>x.toFixed(2)\<close> takes the integer n with
  n / 100 nearest to the magnitude of x, the larger one on a tie, and prints it with two
  decimals and the sign of x; \<^verbatim>\<open>Number(x.toFixed(2))\<close> reads that string back.
\<close>

definition Math_round :: "rat \<Rightarrow> int" where
  "Math_round x = \<lfloor>x + 1 / 2\<rfloor>"

definition hundredths :: "rat \<Rightarrow> nat" where
  "hundredths x = nat \<lfloor>\<bar>x\<bar> * 100 + 1 / 2\<rfloor>"

definition toFixed2 :: "rat \<Rightarrow> string" where
  "toFixed2 x =
     (let n = hundredths x
      in (if x < 0 then [CHR ''-''] else []) @ string_of_nat (n div 100)
         @ [CHR ''.'', digit_char (n div 10 mod 10), digit_char (n mod 10)])"

definition Number_toFixed2 :: "rat \<Rightarrow> rat" where
  "Number_toFixed2 x =
     (if x < 0 then - (of_nat (hundredths x) / 100) else of_nat (hundredths x) / 100)"

subsection \<open>Metrics Extractor: extractTargetMeta\<close>

text \<open>
  An element as far as \<^verbatim>\<open>extractTargetMeta\<close> reads it. \<^verbatim>\<open>attr_data_track\<close> and
  \<^verbatim>\<open>attr_data_track_id\<close> are the attributes \<^verbatim>\<open>data-track\<close> and \<^verbatim>\<open>data-track-id\<close>
  (\<^verbatim>\<open>None\<close> when absent). \<^verbatim>\<open>has_dataset\<close> tells whether the element has the property
  \<^verbatim>\<open>dataset\<close>: HTML, SVG and MathML elements have it and it mirrors these attributes; an
  element of another namespace has none. \<^verbatim>\<open>className\<close> is a string, or on an SVG element
  an object that prints as \<^verbatim>\<open>[object SVGAnimatedString]\<close>. An event target is null
  (\<^verbatim>\<open>None\<close>), something that is not an element, or an element together with its
  ancestors, nearest first; \<^verbatim>\<open>closest('[data-track]')\<close> is the first of the element and
  its ancestors that carries the attribute.
\<close>

datatype ClassName = ClassString jsstring | SVGAnimatedString

record Element =
  el_id :: jsstring
  tagName :: jsstring
  className :: ClassName
  textContent :: jsstring
  has_dataset :: bool
  attr_data_track :: "jsstring option"
  attr_data_track_id :: "jsstring option"

datatype EventTarget = NonElement | Elem Element "Element list"

record TargetMeta =
  tm_action :: jsstring
  tm_targetId :: "jsstring option"
  tm_tag :: jsstring
  tm_className :: jsstring
  tm_textSample :: jsstring

datatype js_error = TypeError

definition closest_tracked :: "Element \<Rightarrow> Element list \<Rightarrow> Element option" where
  "closest_tracked x anc = find (\<lambda>a. attr_data_track a \<noteq> None) (x # anc)"

text \<open>
  \<^verbatim>\<open>tracked?.dataset.track\<close> and \<^verbatim>\<open>tracked?.dataset.trackId\<close>: the optional chain
  guards \<^verbatim>\<open>tracked\<close> only, so reading a property of a missing \<^verbatim>\<open>dataset\<close> throws.
\<close>

definition dataset_read :: "Element option \<Rightarrow> js_error + (jsstring option \<times> jsstring option)" where
  "dataset_read tracked =
     (case tracked of
        None \<Rightarrow> Inr (None, None)
      | Some t \<Rightarrow> if has_dataset t then Inr (attr_data_track t, attr_data_track_id t)
                  else Inl TypeError)"

text \<open>\<^verbatim>\<open>(a || b || '').toString()\<close> on class names; the object is truthy.\<close>

definition class_truthy :: "ClassName option \<Rightarrow> bool" where
  "class_truthy v =
     (case v of None \<Rightarrow> False | Some (ClassString x) \<Rightarrow> x \<noteq> [] | Some SVGAnimatedString \<Rightarrow> True)"

definition class_toString :: "ClassName option \<Rightarrow> jsstring" where
  "class_toString v =
     (case v of None \<Rightarrow> [] | Some (ClassString x) \<Rightarrow> x
      | Some SVGAnimatedString \<Rightarrow> utf16 ''[object SVGAnimatedString]'')"

definition class_or :: "ClassName option \<Rightarrow> ClassName option \<Rightarrow> ClassName option" where
  "class_or a b = (if class_truthy a then a else if class_truthy b then b else None)"

definition extractTargetMeta :: "EventTarget option \<Rightarrow> js_error + TargetMeta" where
  "extractTargetMeta target =
     (let el = (case target of Some (Elem x anc) \<Rightarrow> Some x | _ \<Rightarrow> None);
          tracked = (case target of Some (Elem x anc) \<Rightarrow> closest_tracked x anc | _ \<Rightarrow> None);
          rawText = js_or_str (js_or (map_option textContent tracked)
                                     (map_option textContent el)) []
      in case dataset_read tracked of
           Inl err \<Rightarrow> Inl err
         | Inr (track, trackId) \<Rightarrow>
             Inr \<lparr>tm_action = js_or_str track (utf16 ''dom_click''),
                  tm_targetId = js_or trackId
                                  (js_or (map_option el_id tracked) (js_or (map_option el_id el) None)),
                  tm_tag = toLowerCase (js_or_str (js_or (map_option tagName tracked)
                                                         (map_option tagName el)) []),
                  tm_className = take 120 (class_toString
                                   (class_or (map_option className tracked)
                                             (map_option className el))),
                  tm_textSample = take 50 (collapse_ws rawText)\<rparr>)"

text \<open>What \<^verbatim>\<open>extractTargetMeta\<close> returns when there is no element to read.\<close>

definition default_TargetMeta :: TargetMeta where
  "default_TargetMeta =
     \<lparr>tm_action = utf16 ''dom_click'', tm_targetId = None, tm_tag = [], tm_className = [],
      tm_textSample = []\<rparr>"

subsection \<open>Event records\<close>

datatype EventName =
    page_enter | page_exit | scroll | click | heartbeat | touch_start | touch_move
  | touch_end | visibility_change | focus | blur | input | route_update

text \<open>
  The values a \<^verbatim>\<open>meta\<close> bag holds; the bag is a finite map from keys to values. A
  string value is \<^verbatim>\<open>Str\<close> when it is held as characters and \<^verbatim>\<open>Text\<close> when it is held
  as code units (text read from DOM elements).
\<close>

datatype jsval = Undefined | Num rat | Str string | Bool bool | Text jsstring

type_synonym meta_bag = "string \<rightharpoonup> jsval"

record EventPayload =
  seq :: nat
  timestamp :: int
  event :: EventName
  page :: string
  pageSessionId :: string
  sessionId :: string
  condition :: string
  participantId :: string
  dwellMs :: "int option"
  depth :: "string option"
  action :: "jsstring option"
  targetId :: "jsstring option"
  meta :: "meta_bag option"

record UserProfile =
  age :: int
  occupation :: string

record LoggerConfig =
  cfg_pageId :: string
  cfg_condition :: string
  cfg_participantId :: string
  cfg_userProfile :: "UserProfile option"

text \<open>The argument of \<^verbatim>\<open>push\<close>: an event record without the fields \<^verbatim>\<open>push\<close> fills in.\<close>

record Partial =
  p_event :: EventName
  p_timestamp :: "int option"
  p_dwellMs :: "int option"
  p_depth :: "string option"
  p_action :: "jsstring option"
  p_targetId :: "jsstring option"
  p_meta :: "meta_bag option"

definition partial :: "EventName \<Rightarrow> Partial" where
  "partial ev = \<lparr>p_event = ev, p_timestamp = None, p_dwellMs = None, p_depth = None,
                  p_action = None, p_targetId = None, p_meta = None\<rparr>"

subsection \<open>The state of one hook instance\<close>

text \<open>
  The refs of the hook, the configuration captured by the running effect, and the world
  outside: \<^verbatim>\<open>active\<close> tells whether the effect is set up (listeners attached, timers
  running); \<^verbatim>\<open>inflight\<close> holds the batches handed to \<^verbatim>\<open>fetch\<close> whose promise has not
  settled, \<^verbatim>\<open>posted\<close> every body handed to \<^verbatim>\<open>fetch\<close>, \<^verbatim>\<open>beacons\<close> every body handed
  to \<^verbatim>\<open>navigator.sendBeacon\<close>, and \<^verbatim>\<open>produced\<close> every event record constructed, in
  the order of construction. No handler reads the last four.
\<close>

record logger =
  config :: LoggerConfig
  sessionIdRef :: string
  pageSessionIdRef :: string
  enterAtRef :: int
  hiddenAtRef :: "int option"
  maxDepthRef :: rat
  seqRef :: nat
  queueRef :: "EventPayload list"
  lastScrollTopRef :: rat
  lastScrollTsRef :: int
  flushingRef :: bool
  active :: bool
  inflight :: "EventPayload list list"
  posted :: "EventPayload list list"
  beacons :: "EventPayload list list"
  produced :: "EventPayload list"

text \<open>
  The first render of the hook. \<^verbatim>\<open>storage\<close> is the value of the key
  \<^verbatim>\<open>weibsim_session_id\<close> in \<^verbatim>\<open>sessionStorage\<close>; \<^verbatim>\<open>r1\<close> and \<^verbatim>\<open>r2\<close> are the two
  draws \<^verbatim>\<open>Math.random().toString(36).slice(2, 8)\<close>. The result is the state and the
  storage after the render.
\<close>

definition useExperimentLogger ::
  "LoggerConfig \<Rightarrow> string option \<Rightarrow> int \<Rightarrow> string \<Rightarrow> string \<Rightarrow> logger \<times> string option" where
  "useExperimentLogger cfg storage t r1 r2 =
     (let pg = ''pg_'' @ string_of_int t @ ''_'' @ r1;
          next = ''s_'' @ string_of_int t @ ''_'' @ r2;
          sid = js_or_str storage next;
          storage' = (if truthy storage then storage else Some next)
      in (\<lparr>config = cfg, sessionIdRef = sid, pageSessionIdRef = pg, enterAtRef = t,
           hiddenAtRef = None, maxDepthRef = 0, seqRef = 0, queueRef = [],
           lastScrollTopRef = 0, lastScrollTsRef = t, flushingRef = False, active = False,
           inflight = [], posted = [], beacons = [], produced = []\<rparr>, storage'))"

subsection \<open>Event Queue: push\<close>

definition profile_meta :: "UserProfile option \<Rightarrow> meta_bag" where
  "profile_meta u =
     [''age'' \<mapsto> (case u of None \<Rightarrow> Undefined | Some p \<Rightarrow> Num (of_int (age p))),
      ''occupation'' \<mapsto> (case u of None \<Rightarrow> Undefined | Some p \<Rightarrow> Str (occupation p))]"

definition push_meta :: "logger \<Rightarrow> env \<Rightarrow> meta_bag option \<Rightarrow> meta_bag" where
  "push_meta s e pm =
     ((profile_meta (cfg_userProfile (config s)))(''visibility'' \<mapsto> Str (visibilityState e)))
       ++ (case pm of None \<Rightarrow> Map.empty | Some m \<Rightarrow> m)"

definition push_record :: "logger \<Rightarrow> env \<Rightarrow> Partial \<Rightarrow> EventPayload" where
  "push_record s e p =
     \<lparr>seq = seqRef s + 1,
      timestamp = (case p_timestamp p of None \<Rightarrow> now e | Some ts \<Rightarrow> ts),
      event = p_event p,
      page = cfg_pageId (config s),
      pageSessionId = pageSessionIdRef s,
      sessionId = sessionIdRef s,
      condition = cfg_condition (config s),
      participantId = cfg_participantId (config s),
      dwellMs = p_dwellMs p, depth = p_depth p, action = p_action p, targetId = p_targetId p,
      meta = Some (push_meta s e (p_meta p))\<rparr>"

definition push :: "logger \<Rightarrow> env \<Rightarrow> Partial \<Rightarrow> logger" where
  "push s e p =
     s\<lparr>seqRef := seqRef s + 1,
       queueRef := queueRef s @ [push_record s e p],
       produced := produced s @ [push_record s e p]\<rparr>"

subsection \<open>Listener Registry: the handlers\<close>

definition pct :: "rat \<Rightarrow> string" where
  "pct x = toFixed2 x @ ''%''"

definition num :: "int \<Rightarrow> jsval" where
  "num i = Num (of_int i)"

definition text_or_undefined :: "jsstring option \<Rightarrow> jsval" where
  "text_or_undefined v = (case v of None \<Rightarrow> Undefined | Some x \<Rightarrow> Text x)"

definition onScroll :: "logger \<Rightarrow> env \<Rightarrow> logger" where
  "onScroll s e =
     (let metrics = getScrollMetrics e;
          deltaY = scrollTop metrics - lastScrollTopRef s;
          deltaT = max (now e - lastScrollTsRef s) 1;
          velocityPxPerSec = (deltaY / of_int deltaT) * 1000;
          s1 = s\<lparr>maxDepthRef := max (maxDepthRef s) (depthPct metrics),
                 lastScrollTopRef := scrollTop metrics,
                 lastScrollTsRef := now e\<rparr>
      in push s1 e ((partial scroll)
           \<lparr>p_depth := Some (pct (depthPct metrics)),
            p_meta := Some
              [''scrollTop'' \<mapsto> num (Math_round (scrollTop metrics)),
               ''scrollHeight'' \<mapsto> num (scrollHeight metrics),
               ''clientHeight'' \<mapsto> num (clientHeight metrics),
               ''deltaY'' \<mapsto> num (Math_round deltaY),
               ''velocityPxPerSec'' \<mapsto> Num (Number_toFixed2 velocityPxPerSec),
               ''maxDepthPct'' \<mapsto> Num (Number_toFixed2 (maxDepthRef s1))]\<rparr>))"

text \<open>
  When \<^verbatim>\<open>extractTargetMeta\<close> throws, the listener ends there: nothing is pushed and no
  ref has been written.
\<close>

definition onClick :: "logger \<Rightarrow> env \<Rightarrow> EventTarget option \<Rightarrow> rat \<Rightarrow> rat \<Rightarrow> logger" where
  "onClick s e target clientX clientY =
     (case extractTargetMeta target of
        Inl err \<Rightarrow> s
      | Inr targetMeta \<Rightarrow>
          push s e ((partial click)
            \<lparr>p_action := Some (tm_action targetMeta),
             p_targetId := tm_targetId targetMeta,
             p_meta := Some
               [''x'' \<mapsto> num (Math_round clientX),
                ''y'' \<mapsto> num (Math_round clientY),
                ''action'' \<mapsto> Text (tm_action targetMeta),
                ''targetId'' \<mapsto> text_or_undefined (tm_targetId targetMeta),
                ''tag'' \<mapsto> Text (tm_tag targetMeta),
                ''className'' \<mapsto> Text (tm_className targetMeta),
                ''textSample'' \<mapsto> Text (tm_textSample targetMeta)]\<rparr>))"

text \<open>
  The three touch handlers differ in the event name only. \<^verbatim>\<open>t\<close> is
  \<^verbatim>\<open>e.changedTouches?.[0]\<close>, the client coordinates of the first changed touch if there
  is one.
\<close>

definition onTouch :: "EventName \<Rightarrow> logger \<Rightarrow> env \<Rightarrow> (rat \<times> rat) option \<Rightarrow> nat \<Rightarrow> logger" where
  "onTouch ev s e t touchCount =
     (case t of
        None \<Rightarrow> s
      | Some (clientX, clientY) \<Rightarrow>
          push s e ((partial ev)
            \<lparr>p_meta := Some
               [''x'' \<mapsto> num (Math_round clientX),
                ''y'' \<mapsto> num (Math_round clientY),
                ''touchCount'' \<mapsto> num (int touchCount)]\<rparr>))"

text \<open>\<^verbatim>\<open>hiddenAtRef.current\<close> is truthy when it is neither null nor 0.\<close>

definition onVisibilityChange :: "logger \<Rightarrow> env \<Rightarrow> logger" where
  "onVisibilityChange s e =
     (let hidden = (visibilityState e = ''hidden'');
          s1 = (if hidden then s\<lparr>hiddenAtRef := Some (now e)\<rparr> else s);
          hiddenDurationMs =
            (case hiddenAtRef s1 of
               None \<Rightarrow> 0
             | Some h \<Rightarrow> if \<not> hidden \<and> h \<noteq> 0 then now e - h else 0)
      in push s1 e ((partial visibility_change)
           \<lparr>p_meta := Some
              [''state'' \<mapsto> Str (visibilityState e),
               ''hiddenDurationMs'' \<mapsto> num hiddenDurationMs]\<rparr>))"

definition onFocus :: "logger \<Rightarrow> env \<Rightarrow> logger" where
  "onFocus s e = push s e (partial focus)"

definition onBlur :: "logger \<Rightarrow> env \<Rightarrow> logger" where
  "onBlur s e = push s e (partial blur)"

text \<open>
  The target of an input event as \<^verbatim>\<open>onInput\<close> reads it: \<^verbatim>\<open>it_value\<close> is
  \<^verbatim>\<open>None\<close> when \<^verbatim>\<open>target.value\<close> is not a string, \<^verbatim>\<open>it_data_track\<close> is
  \<^verbatim>\<open>target.getAttribute('data-track')\<close>.
\<close>

record InputTarget =
  it_value :: "jsstring option"
  it_id :: "jsstring option"
  it_name :: "jsstring option"
  it_type :: "jsstring option"
  it_data_track :: "jsstring option"

definition onInput :: "logger \<Rightarrow> env \<Rightarrow> InputTarget option \<Rightarrow> logger" where
  "onInput s e target =
     (case target of
        None \<Rightarrow> s
      | Some t \<Rightarrow>
          (let v = (case it_value t of None \<Rightarrow> [] | Some x \<Rightarrow> x)
           in push s e ((partial input)
                \<lparr>p_action := Some (utf16 ''input_change''),
                 p_targetId := js_or (it_id t) (js_or (it_name t) (js_or (it_data_track t) None)),
                 p_meta := Some
                   [''fieldType'' \<mapsto> Text (js_or_str (it_type t) (utf16 ''text'')),
                    ''valueLength'' \<mapsto> num (int (length v))]\<rparr>)))"

definition onPopState :: "logger \<Rightarrow> env \<Rightarrow> logger" where
  "onPopState s e = push s e ((partial route_update)\<lparr>p_meta := Some [''url'' \<mapsto> Str (href e)]\<rparr>)"

definition sampleTimer :: "logger \<Rightarrow> env \<Rightarrow> logger" where
  "sampleTimer s e =
     (let metrics = getScrollMetrics e;
          s1 = s\<lparr>maxDepthRef := max (maxDepthRef s) (depthPct metrics)\<rparr>
      in push s1 e ((partial heartbeat)
           \<lparr>p_depth := Some (pct (depthPct metrics)),
            p_meta := Some
              [''scrollTop'' \<mapsto> num (Math_round (scrollTop metrics)),
               ''scrollHeight'' \<mapsto> num (scrollHeight metrics),
               ''clientHeight'' \<mapsto> num (clientHeight metrics),
               ''maxDepthPct'' \<mapsto> Num (Number_toFixed2 (maxDepthRef s1)),
               ''activeMs'' \<mapsto> num (now e - enterAtRef s1),
               ''online'' \<mapsto> Bool (onLine e)]\<rparr>))"

subsection \<open>Delivery Transport: sendEvents\<close>

text \<open>
  How a \<^verbatim>\<open>fetch\<close> ends: it rejects on a network error, it may throw, or it resolves with
  a response carrying an HTTP status. \<^verbatim>\<open>sendEvents\<close> awaits the \<^verbatim>\<open>fetch\<close> and reads
  nothing of the response, so its own promise rejects exactly when the \<^verbatim>\<open>fetch\<close> rejects
  or throws; for an empty list it resolves without any request.
\<close>

datatype fetch_outcome = NetworkError | ThrownException | HttpResponse nat

datatype settled = Resolved | Rejected

definition sendEvents :: "EventPayload list \<Rightarrow> fetch_outcome \<Rightarrow> settled" where
  "sendEvents events out =
     (if length events = 0 then Resolved
      else case out of HttpResponse status \<Rightarrow> Resolved | _ \<Rightarrow> Rejected)"

text \<open>A failed delivery in the words of the specification.\<close>

definition spec_delivery_failed :: "fetch_outcome \<Rightarrow> bool" where
  "spec_delivery_failed out =
     (case out of NetworkError \<Rightarrow> True | ThrownException \<Rightarrow> True
      | HttpResponse status \<Rightarrow> \<not> (200 \<le> status \<and> status < 300))"

subsection \<open>Flush Scheduler\<close>

text \<open>
  \<^verbatim>\<open>flush\<close> up to its \<^verbatim>\<open>await\<close>: the guard, the splice of the whole queue, and for a
  batch that is not empty the flag and the request. \<^verbatim>\<open>flush_settled\<close> is the rest of
  \<^verbatim>\<open>flush\<close>, run when the promise of the oldest pending request settles: the
  \<^verbatim>\<open>catch\<close> puts the batch back in front of the queue, the \<^verbatim>\<open>finally\<close> clears the
  flag.
\<close>

definition flush :: "logger \<Rightarrow> logger" where
  "flush s =
     (if flushingRef s then s
      else let batch = queueRef s; s1 = s\<lparr>queueRef := []\<rparr>
           in if length batch = 0 then s1
              else s1\<lparr>flushingRef := True,
                      posted := posted s1 @ [batch],
                      inflight := inflight s1 @ [batch]\<rparr>)"

definition flush_settled :: "logger \<Rightarrow> fetch_outcome \<Rightarrow> logger" where
  "flush_settled s out =
     (case inflight s of
        [] \<Rightarrow> s
      | batch # rest \<Rightarrow>
          (let s1 = s\<lparr>inflight := rest\<rparr>;
               s2 = (case sendEvents batch out of
                       Rejected \<Rightarrow> s1\<lparr>queueRef := batch @ queueRef s1\<rparr>
                     | Resolved \<Rightarrow> s1)
           in s2\<lparr>flushingRef := False\<rparr>))"

subsection \<open>Unload Guard\<close>

definition unload_record :: "logger \<Rightarrow> env \<Rightarrow> EventPayload" where
  "unload_record s e =
     \<lparr>seq = seqRef s + 1,
      timestamp = now e,
      event = page_exit,
      page = cfg_pageId (config s),
      pageSessionId = pageSessionIdRef s,
      sessionId = sessionIdRef s,
      condition = cfg_condition (config s),
      participantId = cfg_participantId (config s),
      dwellMs = Some (now e - enterAtRef s),
      depth = Some (pct (maxDepthRef s)),
      action = None, targetId = None,
      meta = Some (profile_meta (cfg_userProfile (config s)))\<rparr>"

text \<open>
  \<^verbatim>\<open>queued\<close> is what \<^verbatim>\<open>navigator.sendBeacon\<close> returns (whether the browser accepted
  the data for transfer); the handler drops it.
\<close>

definition handleUnload :: "logger \<Rightarrow> env \<Rightarrow> bool \<Rightarrow> logger" where
  "handleUnload s e queued =
     (let payloads = unload_record s e # queueRef s
      in s\<lparr>seqRef := seqRef s + 1,
           produced := produced s @ [unload_record s e],
           beacons := beacons s @ [payloads],
           queueRef := []\<rparr>)"

subsection \<open>Effect set-up and clean-up\<close>

definition mount :: "logger \<Rightarrow> env \<Rightarrow> LoggerConfig \<Rightarrow> logger" where
  "mount s e cfg =
     (let initialMetrics = getScrollMetrics e;
          s1 = s\<lparr>config := cfg, active := True, enterAtRef := now e,
                 maxDepthRef := depthPct initialMetrics\<rparr>
      in push s1 e ((partial page_enter)
           \<lparr>p_depth := Some (pct (depthPct initialMetrics)),
            p_meta := Some
              [''url'' \<mapsto> Str (href e),
               ''userAgent'' \<mapsto> Str (userAgent e),
               ''viewport'' \<mapsto> Str (string_of_int (innerWidth e) @ ''x''
                                        @ string_of_int (innerHeight e))]\<rparr>))"

definition cleanup :: "logger \<Rightarrow> env \<Rightarrow> logger" where
  "cleanup s e =
     (let s1 = push s e ((partial page_exit)
                 \<lparr>p_timestamp := Some (now e),
                  p_dwellMs := Some (now e - enterAtRef s),
                  p_depth := Some (pct (maxDepthRef s))\<rparr>)
      in flush (s1\<lparr>active := False\<rparr>))"

subsection \<open>What happens to a hook instance\<close>

text \<open>
  React sets the effect up after a render (\<^verbatim>\<open>Mount\<close>, with the configuration of that
  render) and cleans it up before the next set-up or at unmount (\<^verbatim>\<open>Unmount\<close>). The
  browser delivers events and timer ticks to the listeners only while the effect is set up.
  \<^verbatim>\<open>Settled\<close> is the end of the oldest pending \<^verbatim>\<open>fetch\<close>; it is not cancelled by
  clean-up. Every signal comes with the browser state at that moment.
\<close>

datatype signal =
    Mount LoggerConfig
  | Unmount
  | Scroll
  | Click "EventTarget option" rat rat
  | TouchStart "(rat \<times> rat) option" nat
  | TouchMove "(rat \<times> rat) option" nat
  | TouchEnd "(rat \<times> rat) option" nat
  | VisibilityChange
  | Focus
  | Blur
  | Input "InputTarget option"
  | PopState
  | SampleTick
  | FlushTick
  | Unload bool
  | Settled fetch_outcome

fun listener :: "logger \<Rightarrow> env \<Rightarrow> signal \<Rightarrow> logger" where
  "listener s e Scroll = onScroll s e"
| "listener s e (Click target x y) = onClick s e target x y"
| "listener s e (TouchStart t n) = onTouch touch_start s e t n"
| "listener s e (TouchMove t n) = onTouch touch_move s e t n"
| "listener s e (TouchEnd t n) = onTouch touch_end s e t n"
| "listener s e VisibilityChange = onVisibilityChange s e"
| "listener s e Focus = onFocus s e"
| "listener s e Blur = onBlur s e"
| "listener s e (Input target) = onInput s e target"
| "listener s e PopState = onPopState s e"
| "listener s e SampleTick = sampleTimer s e"
| "listener s e FlushTick = flush s"
| "listener s e (Unload queued) = handleUnload s e queued"
| "listener s e _ = s"

fun step :: "logger \<Rightarrow> env \<times> signal \<Rightarrow> logger" where
  "step s (e, Mount cfg) = (if active s then s else mount s e cfg)"
| "step s (e, Unmount) = (if active s then cleanup s e else s)"
| "step s (e, Settled out) = flush_settled s out"
| "step s (e, sig) = (if active s then listener s e sig else s)"

definition run :: "logger \<Rightarrow> (env \<times> signal) list \<Rightarrow> logger" where
  "run s sigs = foldl step s sigs"

text \<open>The signals that end a pending delivery, and those that trigger the Unload Guard.\<close>

fun settles :: "signal \<Rightarrow> bool" where
  "settles (Settled out) = True"
| "settles _ = False"

fun unloads :: "signal \<Rightarrow> bool" where
  "unloads (Unload queued) = True"
| "unloads _ = False"

subsection \<open>The running maximum as the records show it\<close>

text \<open>
  The value under the key \<^verbatim>\<open>maxDepthPct\<close> in the meta bag of a record, if it is a
  number, and the list of these values over a list of records.
\<close>

definition maxDepthPct_of :: "EventPayload \<Rightarrow> rat option" where
  "maxDepthPct_of r =
     (case meta r of
        None \<Rightarrow> None
      | Some m \<Rightarrow> (case m ''maxDepthPct'' of Some (Num x) \<Rightarrow> Some x | _ \<Rightarrow> None))"

definition recorded_maxDepths :: "EventPayload list \<Rightarrow> rat list" where
  "recorded_maxDepths rs = List.map_filter maxDepthPct_of rs"

text \<open>What one signal other than a set-up does to the maximum and to the record log.\<close>

definition depth_step :: "logger \<Rightarrow> logger \<Rightarrow> bool" where
  "depth_step s s' =
     (maxDepthRef s \<le> maxDepthRef s'
      \<and> (\<exists>new. produced s' = produced s @ new
            \<and> (\<forall>x\<in>set (recorded_maxDepths new). x = Number_toFixed2 (maxDepthRef s'))))"

text \<open>The signals whose handlers sample the scroll depth: scroll events and heartbeats.\<close>

fun samples_depth :: "signal \<Rightarrow> bool" where
  "samples_depth Scroll = True"
| "samples_depth SampleTick = True"
| "samples_depth _ = False"

text \<open>The signal that sets the effect up (and resets the maximum).\<close>

fun sets_up :: "signal \<Rightarrow> bool" where
  "sets_up (Mount cfg) = True"
| "sets_up _ = False"

subsection \<open>Invariants of a hook instance\<close>

text \<open>The counter and the records constructed so far agree.\<close>

definition seq_inv :: "logger \<Rightarrow> bool" where
  "seq_inv s = (map seq (produced s) = [1..<Suc (seqRef s)])"

text \<open>The flag is set exactly while a request is pending, and at most one is.\<close>

definition single_flight :: "logger \<Rightarrow> bool" where
  "single_flight s = ((flushingRef s \<longleftrightarrow> inflight s \<noteq> []) \<and> length (inflight s) \<le> 1)"

subsection \<open>Concrete inputs\<close>

definition env0 :: env where
  "env0 = \<lparr>now = 1000, root_scrollTop = 0, body_scrollTop = 0, root_scrollHeight = 800,
           body_scrollHeight = 800, root_clientHeight = 800, innerHeight = 800,
           innerWidth = 400, visibilityState = ''visible'', href = ''http://lab/'',
           userAgent = ''UA'', onLine = True\<rparr>"

definition cfg0 :: LoggerConfig where
  "cfg0 = \<lparr>cfg_pageId = ''login'', cfg_condition = ''prelogin'', cfg_participantId = ''p001'',
           cfg_userProfile = Some \<lparr>age = 30, occupation = ''nurse''\<rparr>\<rparr>"

definition logger0 :: logger where
  "logger0 = fst (useExperimentLogger cfg0 None 1000 ''k3j9xa'' ''q0w8zz'')"

definition visit0 :: "(env \<times> signal) list" where
  "visit0 = [(env0, Mount cfg0), (env0\<lparr>now := 1100\<rparr>, SampleTick),
             (env0\<lparr>now := 1150\<rparr>, Click None 10 20),
             (env0\<lparr>now := 1180\<rparr>, TouchStart None 0),
             (env0\<lparr>now := 1200\<rparr>, Unload True),
             (env0\<lparr>now := 1210\<rparr>, Unmount)]"

definition busy0 :: "(env \<times> signal) list" where
  "busy0 = [(env0, Mount cfg0), (env0\<lparr>now := 1400\<rparr>, FlushTick),
            (env0\<lparr>now := 1500\<rparr>, SampleTick)]"

definition scrolled0 :: env where
  "scrolled0 = env0\<lparr>now := 1100, root_scrollTop := 300, root_scrollHeight := 1600\<rparr>"

definition pending1 :: "(env \<times> signal) list" where
  "pending1 = [(env0, Mount cfg0), (scrolled0, Scroll)]"

definition idle0 :: logger where
  "idle0 = run logger0 [(env0, Mount cfg0)]"

definition between0 :: "(env \<times> signal) list" where
  "between0 = [(env0\<lparr>now := 1450\<rparr>, SampleTick), (env0\<lparr>now := 1500\<rparr>, Click None 3 4)]"

definition depths0 :: "(env \<times> signal) list" where
  "depths0 = [(scrolled0, Scroll),
              (env0\<lparr>now := 1300, root_scrollTop := 100, root_scrollHeight := 1600\<rparr>, SampleTick)]"

definition overlay0 :: Partial where
  "overlay0 = (partial focus)\<lparr>p_meta := Some [''visibility'' \<mapsto> Str ''forced'', ''x'' \<mapsto> Num 1]\<rparr>"

definition button_el :: Element where
  "button_el = \<lparr>el_id = utf16 ''b1'', tagName = utf16 ''BUTTON'',
     className = ClassString (replicate 130 99),
     textContent = utf16 ''  like '' @ [10, 12288]
       @ utf16 ''  this   post  and a long long tail of more than fifty characters'',
     has_dataset = True, attr_data_track = None, attr_data_track_id = None\<rparr>"

definition article_el :: Element where
  "article_el = \<lparr>el_id = utf16 ''a1'', tagName = utf16 ''ARTICLE'', className = ClassString [],
     textContent = utf16 ''Post'' @ [10, 10] @ textContent button_el,
     has_dataset = True, attr_data_track = Some (utf16 ''feed_post''),
     attr_data_track_id = Some (utf16 ''p7'')\<rparr>"

text \<open>A tracked SVG element, and a tracked element of a foreign namespace (no dataset).\<close>

definition svg_el :: Element where
  "svg_el = \<lparr>el_id = [], tagName = utf16 ''svg'', className = SVGAnimatedString,
     textContent = [], has_dataset = True, attr_data_track = Some (utf16 ''icon''),
     attr_data_track_id = None\<rparr>"

definition plain_el :: Element where
  "plain_el = \<lparr>el_id = utf16 ''x1'', tagName = utf16 ''widget'', className = ClassString [],
     textContent = utf16 ''go'', has_dataset = False, attr_data_track = Some (utf16 ''open''),
     attr_data_track_id = None\<rparr>"

text \<open>Two page views on one hook instance: the page id changes, the effect runs again.\<close>

definition cfg_detail :: LoggerConfig where
  "cfg_detail = cfg0\<lparr>cfg_pageId := ''smart_detail''\<rparr>"

definition firstview0 :: "(env \<times> signal) list" where
  "firstview0 = [(env0, Mount cfg0), (env0\<lparr>now := 1100\<rparr>, SampleTick),
                 (env0\<lparr>now := 1200\<rparr>, Unmount)]"

definition secondview0 :: "(env \<times> signal) list" where
  "secondview0 = [(env0\<lparr>now := 1200\<rparr>, Mount cfg_detail), (env0\<lparr>now := 1300\<rparr>, SampleTick),
                  (env0\<lparr>now := 1400\<rparr>, Unmount)]"

section \<open>Properties\<close>

subsection \<open>Scroll depth\<close>

text \<open>
  C5. For every readable DOM state, \<^verbatim>\<open>getScrollMetrics\<close> returns the scroll offset
  (that of the root element, or of the body when the root reports 0, or 0), the scroll height
  and the client height it reads from that state (each height floored at 1), and a depth
  percentage equal to clamp(0, 100, scrollTop / max(scrollHeight - clientHeight, 1) * 100)
  of these readings; the denominator is at least 1, hence never zero, and the result lies
  in the closed interval from 0 to 100.
\<close>

theorem getScrollMetrics_depthPct:
  "scrollTop (getScrollMetrics e)
     = (if root_scrollTop e \<noteq> 0 then root_scrollTop e
        else if body_scrollTop e \<noteq> 0 then body_scrollTop e else 0)
   \<and> scrollHeight (getScrollMetrics e) = max (max (root_scrollHeight e) (body_scrollHeight e)) 1
   \<and> clientHeight (getScrollMetrics e) = max (max (root_clientHeight e) (innerHeight e)) 1
   \<and> depthPct (getScrollMetrics e)
     = spec_depthPct (if root_scrollTop e \<noteq> 0 then root_scrollTop e
        else if body_scrollTop e \<noteq> 0 then body_scrollTop e else 0)
         (max (max (root_scrollHeight e) (body_scrollHeight e)) 1)
         (max (max (root_clientHeight e) (innerHeight e)) 1)
   \<and> depthPct (getScrollMetrics e) =
     spec_depthPct (scrollTop (getScrollMetrics e)) (scrollHeight (getScrollMetrics e))
       (clientHeight (getScrollMetrics e))
   \<and> maxScrollable (getScrollMetrics e) =
       max (scrollHeight (getScrollMetrics e) - clientHeight (getScrollMetrics e)) 1
   \<and> 1 \<le> maxScrollable (getScrollMetrics e)
   \<and> (of_int (maxScrollable (getScrollMetrics e)) :: rat) \<noteq> 0
   \<and> 0 \<le> depthPct (getScrollMetrics e) \<and> depthPct (getScrollMetrics e) \<le> 100"
proof -
  let ?g = "getScrollMetrics e"
  have f1: "scrollTop ?g = (if root_scrollTop e \<noteq> 0 then root_scrollTop e
        else if body_scrollTop e \<noteq> 0 then body_scrollTop e else 0)"
    by (simp only: getScrollMetrics_def Let_def ScrollMetrics.select_convs)
  have f2: "scrollHeight ?g = max (max (root_scrollHeight e) (body_scrollHeight e)) 1"
    by (simp only: getScrollMetrics_def Let_def ScrollMetrics.select_convs)
  have f3: "clientHeight ?g = max (max (root_clientHeight e) (innerHeight e)) 1"
    by (simp only: getScrollMetrics_def Let_def ScrollMetrics.select_convs)
  have f4: "maxScrollable ?g = max (scrollHeight ?g - clientHeight ?g) 1"
    by (simp only: getScrollMetrics_def Let_def ScrollMetrics.select_convs)
  have f5: "depthPct ?g = min 100 (max 0 (scrollTop ?g / of_int (maxScrollable ?g) * 100))"
    by (simp only: getScrollMetrics_def Let_def ScrollMetrics.select_convs)
  have c: "min 100 (max 0 x) = clamp 0 100 x" for x :: rat
    by (simp add: clamp_def min_def max_def)
  have d1: "depthPct ?g = spec_depthPct (scrollTop ?g) (scrollHeight ?g) (clientHeight ?g)"
    by (simp only: f5 f4 c spec_depthPct_def)
  have d2: "depthPct ?g
     = spec_depthPct (if root_scrollTop e \<noteq> 0 then root_scrollTop e
        else if body_scrollTop e \<noteq> 0 then body_scrollTop e else 0)
         (max (max (root_scrollHeight e) (body_scrollHeight e)) 1)
         (max (max (root_clientHeight e) (innerHeight e)) 1)"
    using d1 by (simp only: f1 f2 f3)
  have m: "1 \<le> maxScrollable ?g" by (simp add: f4)
  then have z: "(of_int (maxScrollable ?g) :: rat) \<noteq> 0" by simp
  have r1: "0 \<le> depthPct ?g" by (simp add: f5)
  have r2: "depthPct ?g \<le> 100" by (simp add: f5)
  show ?thesis
    by (intro conjI) (rule f1, rule f2, rule f3, rule d2, rule d1, rule f4, rule m, rule z,
        rule r1, rule r2)
qed

text \<open>
  A page scrolled 300 into a scrollable range of 800, read from the root element and read
  from the body; a scroll past the end and an overscroll above the top; and the degenerate
  document whose scrollable range is zero (scrollHeight = clientHeight).
\<close>

theorem getScrollMetrics_depthPct_witness:
  "depthPct (getScrollMetrics scrolled0) = 75 / 2
   \<and> spec_depthPct 300 1600 800 = 75 / 2
   \<and> maxScrollable (getScrollMetrics scrolled0) = 800
   \<and> depthPct (getScrollMetrics (scrolled0\<lparr>root_scrollTop := 0, body_scrollTop := 200\<rparr>)) = 25
   \<and> depthPct (getScrollMetrics (scrolled0\<lparr>root_scrollTop := 900\<rparr>)) = 100
   \<and> depthPct (getScrollMetrics (scrolled0\<lparr>root_scrollTop := - 40\<rparr>)) = 0
   \<and> scrollHeight (getScrollMetrics env0) = clientHeight (getScrollMetrics env0)
   \<and> maxScrollable (getScrollMetrics env0) = 1
   \<and> depthPct (getScrollMetrics (env0\<lparr>root_scrollTop := 5\<rparr>)) = 100
   \<and> depthPct (getScrollMetrics env0) = 0"
proof -
  have r: "root_scrollTop scrolled0 = 300" "body_scrollTop scrolled0 = 0"
    "root_scrollHeight scrolled0 = 1600" "body_scrollHeight scrolled0 = 800"
    "root_clientHeight scrolled0 = 800" "innerHeight scrolled0 = 800"
    by (simp_all add: scrolled0_def env0_def)
  have v: "spec_depthPct 300 1600 800 = 75 / 2" by (simp add: spec_depthPct_def clamp_def)
  note H = getScrollMetrics_depthPct [of scrolled0]
  from H have "depthPct (getScrollMetrics scrolled0)
     = spec_depthPct (if root_scrollTop scrolled0 \<noteq> 0 then root_scrollTop scrolled0
        else if body_scrollTop scrolled0 \<noteq> 0 then body_scrollTop scrolled0 else 0)
         (max (max (root_scrollHeight scrolled0) (body_scrollHeight scrolled0)) 1)
         (max (max (root_clientHeight scrolled0) (innerHeight scrolled0)) 1)"
    by (elim conjE)
  then have "depthPct (getScrollMetrics scrolled0) = spec_depthPct 300 1600 800"
    by (simp add: r)
  then have a: "depthPct (getScrollMetrics scrolled0) = 75 / 2" by (simp only: v)
  have b: "maxScrollable (getScrollMetrics scrolled0) = 800"
    by (simp add: getScrollMetrics_def scrolled0_def env0_def Let_def)
  have c: "depthPct (getScrollMetrics (scrolled0\<lparr>root_scrollTop := 0, body_scrollTop := 200\<rparr>)) = 25"
    "depthPct (getScrollMetrics (scrolled0\<lparr>root_scrollTop := 900\<rparr>)) = 100"
    "depthPct (getScrollMetrics (scrolled0\<lparr>root_scrollTop := - 40\<rparr>)) = 0"
    "scrollHeight (getScrollMetrics env0) = clientHeight (getScrollMetrics env0)"
    "maxScrollable (getScrollMetrics env0) = 1"
    "depthPct (getScrollMetrics (env0\<lparr>root_scrollTop := 5\<rparr>)) = 100"
    "depthPct (getScrollMetrics env0) = 0"
    by (simp_all add: getScrollMetrics_def scrolled0_def env0_def Let_def)
  from a v b c show ?thesis by (intro conjI)
qed

subsection \<open>Click-target metadata\<close>

lemma collapse_ws_collapsed: "ws_collapsed (collapse_ws cs)"
proof (induction cs rule: collapse_ws.induct)
  case 1
  show ?case by simp
next
  case (2 c cs)
  show ?case
  proof (cases "is_ws c")
    case True
    show ?thesis
    proof (cases "dropWhile is_ws cs")
      case Nil
      have "collapse_ws (c # cs) = [32]"
        using True by (simp only: collapse_ws.simps Nil if_True)
      then show ?thesis by simp
    next
      case (Cons d ds)
      have "\<not> is_ws (hd (dropWhile is_ws cs))"
        using Cons hd_dropWhile [of is_ws cs] by simp
      then have d: "\<not> is_ws d" using Cons by simp
      have "ws_collapsed (collapse_ws (d # ds))" using 2(1) True Cons by simp
      then show ?thesis using True Cons d by simp
    qed
  next
    case False
    have ih: "ws_collapsed (collapse_ws cs)" using 2(2) False by simp
    show ?thesis
    proof (cases "collapse_ws cs")
      case Nil
      then show ?thesis using False by simp
    next
      case (Cons y ys)
      then show ?thesis using False ih by simp
    qed
  qed
qed

lemma ws_collapsed_take: "ws_collapsed s \<Longrightarrow> ws_collapsed (take n s)"
proof (induction s arbitrary: n rule: ws_collapsed.induct)
  case 1
  show ?case by simp
next
  case (2 c)
  then show ?case by (cases n) auto
next
  case (3 c d cs)
  show ?case
  proof (cases n)
    case 0
    then show ?thesis by simp
  next
    case (Suc m)
    note n = this
    show ?thesis
    proof (cases m)
      case 0
      then show ?thesis using 3 n by auto
    next
      case (Suc k)
      have "ws_collapsed (take m (d # cs))" using 3 by simp
      then show ?thesis using 3(2) n Suc by simp
    qed
  qed
qed

lemma extractTargetMeta_null: "extractTargetMeta None = Inr default_TargetMeta"
  by (simp add: extractTargetMeta_def dataset_read_def default_TargetMeta_def js_or_def
      js_or_str_def truthy_def toLowerCase_def class_or_def class_truthy_def class_toString_def)

text \<open>
  C9, as the code has it. \<^verbatim>\<open>extractTargetMeta\<close> returns the defaults for a null target
  and for a target that is not an element: action \<^verbatim>\<open>dom_click\<close>, no target id, and
  empty tag, class name and text sample. It is not total: it throws a TypeError exactly
  when the target is an element whose nearest element carrying \<^verbatim>\<open>data-track\<close> (itself
  or an ancestor) has no \<^verbatim>\<open>dataset\<close>. Whenever it returns, the class name has at most
  120 code units and the text sample is whitespace-collapsed and has at most 50 code units.
\<close>

theorem extractTargetMeta_total:
  "extractTargetMeta None = Inr default_TargetMeta
   \<and> extractTargetMeta (Some NonElement) = Inr default_TargetMeta
   \<and> (extractTargetMeta t = Inl TypeError \<longleftrightarrow>
        (\<exists>x anc tr. t = Some (Elem x anc) \<and> closest_tracked x anc = Some tr \<and> \<not> has_dataset tr))
   \<and> (\<forall>m. extractTargetMeta t = Inr m \<longrightarrow>
        length (tm_className m) \<le> 120 \<and> length (tm_textSample m) \<le> 50
        \<and> ws_collapsed (tm_textSample m))"
proof -
  have n: "extractTargetMeta (Some NonElement) = Inr default_TargetMeta"
    by (simp add: extractTargetMeta_def dataset_read_def default_TargetMeta_def js_or_def
        js_or_str_def truthy_def toLowerCase_def class_or_def class_truthy_def
        class_toString_def)
  have e: "extractTargetMeta t = Inl TypeError \<longleftrightarrow>
        (\<exists>x anc tr. t = Some (Elem x anc) \<and> closest_tracked x anc = Some tr \<and> \<not> has_dataset tr)"
  proof (cases t)
    case None
    then show ?thesis by (simp add: extractTargetMeta_null)
  next
    case (Some g)
    show ?thesis
    proof (cases g)
      case NonElement
      with Some n show ?thesis by simp
    next
      case (Elem x anc)
      with Some show ?thesis
        by (cases "closest_tracked x anc")
           (simp_all add: extractTargetMeta_def dataset_read_def Let_def)
    qed
  qed
  have b: "length (tm_className m) \<le> 120 \<and> length (tm_textSample m) \<le> 50
        \<and> ws_collapsed (tm_textSample m)" if "extractTargetMeta t = Inr m" for m
    using that
    by (auto simp: extractTargetMeta_def Let_def ws_collapsed_take collapse_ws_collapsed
        split: sum.splits prod.splits)
  from extractTargetMeta_null n e b show ?thesis by blast
qed

text \<open>
  A click on a button with a 130-unit class name and a long, ragged text (with a line feed
  and an ideographic space), inside a tracked article: the action, id, tag and text come
  from the article, the class name from the button. And a click on a tracked SVG element.
\<close>

theorem extractTargetMeta_total_witness:
  "extractTargetMeta (Some (Elem button_el [article_el])) =
     Inr \<lparr>tm_action = utf16 ''feed_post'', tm_targetId = Some (utf16 ''p7''),
          tm_tag = utf16 ''article'', tm_className = replicate 120 99,
          tm_textSample = utf16 ''Post like this post and a long long tail of more t''\<rparr>
   \<and> length (replicate 120 (99::nat)) \<le> 120
   \<and> length (utf16 ''Post like this post and a long long tail of more t'') \<le> 50
   \<and> ws_collapsed (utf16 ''Post like this post and a long long tail of more t'')
   \<and> extractTargetMeta (Some (Elem svg_el [])) =
     Inr \<lparr>tm_action = utf16 ''icon'', tm_targetId = None, tm_tag = utf16 ''svg'',
          tm_className = utf16 ''[object SVGAnimatedString]'', tm_textSample = []\<rparr>
   \<and> extractTargetMeta (Some (Elem svg_el [])) \<noteq> Inl TypeError"
proof -
  let ?m = "\<lparr>tm_action = utf16 ''feed_post'', tm_targetId = Some (utf16 ''p7''),
          tm_tag = utf16 ''article'', tm_className = replicate 120 (99::nat),
          tm_textSample = utf16 ''Post like this post and a long long tail of more t''\<rparr>"
  have v: "extractTargetMeta (Some (Elem button_el [article_el])) = Inr ?m"
    by (simp add: extractTargetMeta_def closest_tracked_def dataset_read_def button_el_def
        article_el_def js_or_def js_or_str_def truthy_def toLowerCase_def lower_char_def
        is_ws_def class_or_def class_truthy_def class_toString_def utf16_def Let_def)
  have w: "extractTargetMeta (Some (Elem svg_el [])) =
     Inr \<lparr>tm_action = utf16 ''icon'', tm_targetId = None, tm_tag = utf16 ''svg'',
          tm_className = utf16 ''[object SVGAnimatedString]'', tm_textSample = []\<rparr>"
    by (simp add: extractTargetMeta_def closest_tracked_def dataset_read_def svg_el_def
        js_or_def js_or_str_def truthy_def toLowerCase_def lower_char_def
        is_ws_def class_or_def class_truthy_def class_toString_def utf16_def Let_def)
  note H = extractTargetMeta_total [of "Some (Elem button_el [article_el])"]
  from H have "\<forall>m. extractTargetMeta (Some (Elem button_el [article_el])) = Inr m \<longrightarrow>
        length (tm_className m) \<le> 120 \<and> length (tm_textSample m) \<le> 50
        \<and> ws_collapsed (tm_textSample m)" by (elim conjE)
  with v have b: "length (tm_className ?m) \<le> 120 \<and> length (tm_textSample ?m) \<le> 50
        \<and> ws_collapsed (tm_textSample ?m)" by blast
  from w have x: "extractTargetMeta (Some (Elem svg_el [])) \<noteq> Inl TypeError" by simp
  from v w b x show ?thesis by simp
qed

text \<open>
  The claim as stated fails on a tracked element without \<^verbatim>\<open>dataset\<close>, clicked itself
  or through a button inside it: \<^verbatim>\<open>extractTargetMeta\<close> throws.
\<close>

theorem extractTargetMeta_throws:
  "extractTargetMeta (Some (Elem plain_el [])) = Inl TypeError
   \<and> extractTargetMeta (Some (Elem button_el [plain_el])) = Inl TypeError"
  by (simp add: extractTargetMeta_def closest_tracked_def dataset_read_def plain_el_def
      button_el_def utf16_def Let_def)

subsection \<open>Projections of push\<close>

lemma push_fields [simp]:
  "seqRef (push s e p) = seqRef s + 1"
  "produced (push s e p) = produced s @ [push_record s e p]"
  "queueRef (push s e p) = queueRef s @ [push_record s e p]"
  "flushingRef (push s e p) = flushingRef s"
  "inflight (push s e p) = inflight s"
  "posted (push s e p) = posted s"
  "beacons (push s e p) = beacons s"
  "active (push s e p) = active s"
  "maxDepthRef (push s e p) = maxDepthRef s"
  "pageSessionIdRef (push s e p) = pageSessionIdRef s"
  "sessionIdRef (push s e p) = sessionIdRef s"
  "config (push s e p) = config s"
  "enterAtRef (push s e p) = enterAtRef s"
  by (simp_all add: push_def)

lemma push_record_seq [simp]: "seq (push_record s e p) = seqRef s + 1"
  by (simp add: push_record_def)

lemma seq_inv_push: "seq_inv s \<Longrightarrow> seq_inv (push s e p)"
  by (simp add: seq_inv_def)

lemma seq_inv_upd [simp]:
  "seq_inv (s\<lparr>maxDepthRef := a\<rparr>) = seq_inv s"
  "seq_inv (s\<lparr>lastScrollTopRef := b\<rparr>) = seq_inv s"
  "seq_inv (s\<lparr>lastScrollTsRef := c\<rparr>) = seq_inv s"
  "seq_inv (s\<lparr>hiddenAtRef := d\<rparr>) = seq_inv s"
  "seq_inv (s\<lparr>config := f\<rparr>) = seq_inv s"
  "seq_inv (s\<lparr>active := g\<rparr>) = seq_inv s"
  "seq_inv (s\<lparr>enterAtRef := h\<rparr>) = seq_inv s"
  "seq_inv (s\<lparr>queueRef := q\<rparr>) = seq_inv s"
  "seq_inv (s\<lparr>flushingRef := fl\<rparr>) = seq_inv s"
  "seq_inv (s\<lparr>inflight := i\<rparr>) = seq_inv s"
  "seq_inv (s\<lparr>posted := po\<rparr>) = seq_inv s"
  by (simp_all add: seq_inv_def)

lemma seq_inv_flush: "seq_inv s \<Longrightarrow> seq_inv (flush s)"
  by (simp add: flush_def Let_def)

lemma seq_inv_flush_settled: "seq_inv s \<Longrightarrow> seq_inv (flush_settled s out)"
  by (simp add: flush_settled_def Let_def split: list.splits settled.splits)

lemma seq_inv_handleUnload: "seq_inv s \<Longrightarrow> seq_inv (handleUnload s e q)"
  by (simp add: handleUnload_def seq_inv_def unload_record_def Let_def)

lemma seq_inv_listener: "seq_inv s \<Longrightarrow> seq_inv (listener s e sig)"
  by (cases sig)
     (simp_all add: onScroll_def onClick_def onTouch_def onVisibilityChange_def onFocus_def
        onBlur_def onInput_def onPopState_def sampleTimer_def Let_def seq_inv_push
        seq_inv_flush seq_inv_handleUnload split: option.splits prod.splits sum.splits)

lemma seq_inv_step: "seq_inv s \<Longrightarrow> seq_inv (step s x)"
proof -
  assume a: "seq_inv s"
  obtain e sig where x: "x = (e, sig)" by (cases x)
  show ?thesis
    unfolding x using a
    by (cases sig)
       (simp_all add: seq_inv_listener mount_def cleanup_def Let_def seq_inv_push
          seq_inv_flush seq_inv_flush_settled del: listener.simps)
qed

lemma seq_inv_run: "seq_inv s \<Longrightarrow> seq_inv (run s sigs)"
  unfolding run_def by (induction sigs arbitrary: s) (simp_all add: seq_inv_step)

lemma seq_inv_init: "seq_inv (fst (useExperimentLogger cfg st t r1 r2))"
  by (simp add: useExperimentLogger_def seq_inv_def Let_def)


subsection \<open>Evaluating concrete runs\<close>

lemmas eval_defs = run_def logger0_def useExperimentLogger_def cfg0_def env0_def scrolled0_def
  mount_def cleanup_def onScroll_def onClick_def onTouch_def sampleTimer_def handleUnload_def
  flush_def flush_settled_def sendEvents_def unload_record_def getScrollMetrics_def Let_def
  extractTargetMeta_null

lemma toFixed2_example: "toFixed2 (75 / 2) = ''37.50''"
proof -
  have "\<lfloor>(7501::rat) / 2\<rfloor> = 3750"
    using floor_divide_of_int_eq [of 7501 2, where ?'a = rat] by simp
  then have h: "hundredths (75 / 2) = 3750" by (simp add: hundredths_def)
  have s: "string_of_nat 37 = ''37''" by code_simp
  have dg: "digit_char 5 = CHR ''5''" "digit_char 0 = CHR ''0''" by code_simp+
  show ?thesis by (simp add: toFixed2_def h s dg)
qed

subsection \<open>Sequence numbers\<close>

text \<open>
  Every signal appends to the log of constructed records, and the records it appends carry
  the instance's two identifiers.
\<close>

lemma new_records_listener:
  "\<exists>new. produced (listener s e sig) = produced s @ new
      \<and> (\<forall>r\<in>set new. pageSessionId r = pageSessionIdRef s \<and> sessionId r = sessionIdRef s)"
  by (cases sig)
     (simp_all add: onScroll_def onClick_def onTouch_def onVisibilityChange_def onFocus_def
        onBlur_def onInput_def onPopState_def sampleTimer_def Let_def flush_def
        handleUnload_def push_record_def unload_record_def
        split: option.splits prod.splits sum.splits)

lemma new_records_step:
  "\<exists>new. produced (step s x) = produced s @ new
      \<and> (\<forall>r\<in>set new. pageSessionId r = pageSessionIdRef s \<and> sessionId r = sessionIdRef s)"
proof -
  obtain e sig where x: "x = (e, sig)" by (cases x)
  have f: "produced (flush_settled s out) = produced s" for out
    by (simp add: flush_settled_def Let_def split: list.splits settled.splits)
  show ?thesis
    unfolding x
    by (cases sig)
       (simp_all add: new_records_listener mount_def cleanup_def Let_def flush_def f
          push_record_def del: listener.simps)
qed

lemma run_append: "run s (xs @ ys) = run (run s xs) ys"
  by (simp add: run_def)

text \<open>
  C1, as the code has it. Within one hook instance, whatever signals arrive, the sequence
  numbers of all event records constructed (by \<^verbatim>\<open>push\<close>, which serves page_enter,
  heartbeats and page_exit too, and by the Unload Guard for its synthetic page_exit) are, in
  the order of construction, 1, 2, ..., N: increasing, without duplicates and without gaps.
  The counter belongs to the hook instance and is not reset when the effect is set up
  again: the records constructed during any later stretch of signals, one mounted instance
  from its set-up to its clean-up in particular, carry consecutive increasing numbers that
  continue where the records before them ended, and start at 1 only when nothing was
  constructed before.
\<close>

theorem seq_consecutive:
  "map seq (produced (run (fst (useExperimentLogger cfg st t r1 r2)) sigs))
   = [1..<Suc (length (produced (run (fst (useExperimentLogger cfg st t r1 r2)) sigs)))]
   \<and> map seq (drop (length (produced (run (fst (useExperimentLogger cfg st t r1 r2)) pre)))
              (produced (run (run (fst (useExperimentLogger cfg st t r1 r2)) pre) sigs)))
   = [Suc (length (produced (run (fst (useExperimentLogger cfg st t r1 r2)) pre)))
        ..<Suc (length (produced (run (run (fst (useExperimentLogger cfg st t r1 r2)) pre) sigs)))]"
proof -
  let ?s0 = "fst (useExperimentLogger cfg st t r1 r2)"
  have all: "map seq (produced (run ?s0 xs)) = [1..<Suc (length (produced (run ?s0 xs)))]"
    for xs
  proof -
    let ?s = "run ?s0 xs"
    have i: "map seq (produced ?s) = [1..<Suc (seqRef ?s)]"
      using seq_inv_run [OF seq_inv_init] by (simp add: seq_inv_def)
    then have "length (map seq (produced ?s)) = length [1..<Suc (seqRef ?s)]" by simp
    then have "length (produced ?s) = seqRef ?s" by simp
    with i show ?thesis by simp
  qed
  let ?a = "run ?s0 pre"
  let ?b = "run ?a sigs"
  have e: "map seq (produced ?b) = [1..<Suc (length (produced ?b))]"
    using all [of "pre @ sigs"] by (simp only: run_append)
  have "map seq (drop (length (produced ?a)) (produced ?b))
      = drop (length (produced ?a)) (map seq (produced ?b))"
    by (simp only: drop_map)
  also have "\<dots> = drop (length (produced ?a)) [1..<Suc (length (produced ?b))]"
    by (simp only: e)
  also have "\<dots> = [1 + length (produced ?a)..<Suc (length (produced ?b))]"
    by (simp only: drop_upt)
  finally have seg: "map seq (drop (length (produced ?a)) (produced ?b))
      = [Suc (length (produced ?a))..<Suc (length (produced ?b))]" by simp
  from all [of sigs] seg show ?thesis by (intro conjI)
qed

text \<open>
  A visit with a heartbeat, a click, a touch without changed touches (no record), an unload
  signal and the clean-up: five records, numbered 1 to 5. And two page views on one hook
  instance: the three records of the second are numbered 4 to 6.
\<close>

theorem seq_consecutive_witness:
  "map seq (produced (run logger0 visit0)) = [1, 2, 3, 4, 5]
   \<and> map event (produced (run logger0 visit0))
       = [page_enter, heartbeat, click, page_exit, page_exit]
   \<and> map seq (drop (length (produced (run logger0 firstview0)))
         (produced (run (run logger0 firstview0) secondview0))) = [4, 5, 6]"
proof -
  have a: "length (produced (run logger0 visit0)) = 5" by (simp add: eval_defs visit0_def)
  have b: "map event (produced (run logger0 visit0))
       = [page_enter, heartbeat, click, page_exit, page_exit]"
    by (simp add: eval_defs visit0_def push_record_def partial_def)
  have c: "[1..<Suc 5] = [1, 2, 3, 4, 5]" "[Suc 3..<Suc 6] = [4, 5, 6]" by code_simp+
  have d: "length (produced (run logger0 firstview0)) = 3"
    by (simp add: eval_defs firstview0_def)
  have e: "length (produced (run (run logger0 firstview0) secondview0)) = 6"
    by (simp add: eval_defs firstview0_def secondview0_def cfg_detail_def)
  note H = seq_consecutive [where cfg = cfg0 and st = None and t = 1000 and ?r1.0 = "''k3j9xa''"
      and ?r2.0 = "''q0w8zz''", folded logger0_def]
  from H [of visit0 "[]"] have "map seq (produced (run logger0 visit0))
      = [1..<Suc (length (produced (run logger0 visit0)))]" by (elim conjE)
  with a c(1) have c1: "map seq (produced (run logger0 visit0)) = [1, 2, 3, 4, 5]"
    by (simp only:)
  from H [of secondview0 firstview0]
  have "map seq (drop (length (produced (run logger0 firstview0)))
         (produced (run (run logger0 firstview0) secondview0)))
      = [Suc (length (produced (run logger0 firstview0)))
          ..<Suc (length (produced (run (run logger0 firstview0) secondview0)))]"
    by (elim conjE)
  with d e c(2) have c2: "map seq (drop (length (produced (run logger0 firstview0)))
         (produced (run (run logger0 firstview0) secondview0))) = [4, 5, 6]"
    by (simp only:)
  from c1 b c2 show ?thesis by (intro conjI)
qed

text \<open>
  The claim as stated fails for a mounted instance that is not the first of its hook: after
  a page view of three records, the page id changes and the effect is set up again; the
  records of the second page view, from its page_enter to its page_exit, are numbered 4, 5
  and 6, not 1, 2 and 3.
\<close>

theorem remount_continues_seq:
  "map event (produced (run logger0 (firstview0 @ secondview0)))
     = [page_enter, heartbeat, page_exit, page_enter, heartbeat, page_exit]
   \<and> map page (produced (run logger0 (firstview0 @ secondview0)))
     = [''login'', ''login'', ''login'', ''smart_detail'', ''smart_detail'', ''smart_detail'']
   \<and> map seq (produced (run logger0 (firstview0 @ secondview0))) = [1, 2, 3, 4, 5, 6]
   \<and> map seq (drop 3 (produced (run logger0 (firstview0 @ secondview0)))) \<noteq> [1, 2, 3]"
  by (simp add: eval_defs firstview0_def secondview0_def cfg_detail_def push_record_def
      partial_def)

subsection \<open>Single flight\<close>

lemma single_flight_push: "single_flight (push s e p) = single_flight s"
  by (simp add: single_flight_def)

lemma single_flight_upd [simp]:
  "single_flight (s\<lparr>maxDepthRef := a\<rparr>) = single_flight s"
  "single_flight (s\<lparr>lastScrollTopRef := b\<rparr>) = single_flight s"
  "single_flight (s\<lparr>lastScrollTsRef := c\<rparr>) = single_flight s"
  "single_flight (s\<lparr>hiddenAtRef := d\<rparr>) = single_flight s"
  "single_flight (s\<lparr>config := f\<rparr>) = single_flight s"
  "single_flight (s\<lparr>active := g\<rparr>) = single_flight s"
  "single_flight (s\<lparr>enterAtRef := h\<rparr>) = single_flight s"
  "single_flight (s\<lparr>queueRef := q\<rparr>) = single_flight s"
  "single_flight (s\<lparr>seqRef := n\<rparr>) = single_flight s"
  "single_flight (s\<lparr>produced := pr\<rparr>) = single_flight s"
  "single_flight (s\<lparr>beacons := be\<rparr>) = single_flight s"
  "single_flight (s\<lparr>posted := po\<rparr>) = single_flight s"
  by (simp_all add: single_flight_def)

lemma single_flight_flush: "single_flight s \<Longrightarrow> single_flight (flush s)"
  by (auto simp: flush_def Let_def single_flight_def)

lemma single_flight_flush_settled: "single_flight s \<Longrightarrow> single_flight (flush_settled s out)"
  by (auto simp: flush_settled_def Let_def single_flight_def split: list.splits settled.splits)

lemma single_flight_handleUnload: "single_flight s \<Longrightarrow> single_flight (handleUnload s e q)"
  by (simp add: handleUnload_def Let_def)

lemma single_flight_listener: "single_flight s \<Longrightarrow> single_flight (listener s e sig)"
  by (cases sig)
     (simp_all add: onScroll_def onClick_def onTouch_def onVisibilityChange_def onFocus_def
        onBlur_def onInput_def onPopState_def sampleTimer_def Let_def single_flight_push
        single_flight_flush single_flight_handleUnload split: option.splits prod.splits sum.splits)

lemma single_flight_step: "single_flight s \<Longrightarrow> single_flight (step s x)"
proof -
  assume a: "single_flight s"
  obtain e sig where x: "x = (e, sig)" by (cases x)
  show ?thesis
    unfolding x using a
    by (cases sig)
       (simp_all add: single_flight_listener mount_def cleanup_def Let_def single_flight_push
          single_flight_flush single_flight_flush_settled del: listener.simps)
qed

lemma single_flight_run: "single_flight s \<Longrightarrow> single_flight (run s sigs)"
  unfolding run_def by (induction sigs arbitrary: s) (simp_all add: single_flight_step)

lemma single_flight_init: "single_flight (fst (useExperimentLogger cfg st t r1 r2))"
  by (simp add: useExperimentLogger_def single_flight_def Let_def)

lemma flush_skips: "flushingRef s \<Longrightarrow> flush s = s"
  by (simp add: flush_def)

text \<open>
  C6. In every state a hook instance can reach, at most one delivery is pending; and while
  one is pending, a flush attempt (the timer tick, or \<^verbatim>\<open>flush\<close> called directly) changes
  nothing: it drains nothing and sends nothing.
\<close>

theorem flush_single_flight:
  "length (inflight (run (fst (useExperimentLogger cfg st t r1 r2)) sigs)) \<le> 1
   \<and> (inflight (run (fst (useExperimentLogger cfg st t r1 r2)) sigs) \<noteq> [] \<longrightarrow>
        flush (run (fst (useExperimentLogger cfg st t r1 r2)) sigs)
          = run (fst (useExperimentLogger cfg st t r1 r2)) sigs
      \<and> step (run (fst (useExperimentLogger cfg st t r1 r2)) sigs) (e, FlushTick)
          = run (fst (useExperimentLogger cfg st t r1 r2)) sigs)"
proof -
  let ?s = "run (fst (useExperimentLogger cfg st t r1 r2)) sigs"
  have sf: "single_flight ?s" by (rule single_flight_run [OF single_flight_init])
  then have l: "length (inflight ?s) \<le> 1" by (simp add: single_flight_def)
  have "flush ?s = ?s \<and> step ?s (e, FlushTick) = ?s" if "inflight ?s \<noteq> []"
  proof -
    from sf that have "flushingRef ?s" by (simp add: single_flight_def)
    then show ?thesis by (simp add: flush_skips)
  qed
  with l show ?thesis by blast
qed

text \<open>
  A heartbeat arrives while the first batch is pending: the next tick leaves the state as it
  is, the heartbeat stays queued.
\<close>

theorem flush_single_flight_witness:
  "map (map seq) (inflight (run logger0 busy0)) = [[1]]
   \<and> map seq (queueRef (run logger0 busy0)) = [2]
   \<and> step (run logger0 busy0) (env0\<lparr>now := 1800\<rparr>, FlushTick) = run logger0 busy0"
proof -
  have a: "map (map seq) (inflight (run logger0 busy0)) = [[1]]" by (simp add: eval_defs busy0_def)
  have b: "map seq (queueRef (run logger0 busy0)) = [2]" by (simp add: eval_defs busy0_def)
  from a have c: "inflight (run logger0 busy0) \<noteq> []" by auto
  from a b c flush_single_flight [of cfg0 None 1000 "''k3j9xa''" "''q0w8zz''" busy0 "env0\<lparr>now := 1800\<rparr>"]
  show ?thesis by (simp add: logger0_def)
qed

subsection \<open>Unload Guard\<close>

text \<open>
  C4. With k records pending, the Unload Guard hands exactly one body to
  \<^verbatim>\<open>sendBeacon\<close> and none to \<^verbatim>\<open>fetch\<close>; the body holds k + 1 records: one synthetic
  page_exit (the next sequence number, fresh among the records constructed so far, the dwell
  time, the running-maximum depth) in front of the k pending records. The queue is empty
  afterwards, whatever \<^verbatim>\<open>sendBeacon\<close> reports.
\<close>

theorem handleUnload_beacon:
  "beacons (handleUnload s e queued) = beacons s @ [unload_record s e # queueRef s]
   \<and> length (unload_record s e # queueRef s) = length (queueRef s) + 1
   \<and> posted (handleUnload s e queued) = posted s
   \<and> inflight (handleUnload s e queued) = inflight s
   \<and> queueRef (handleUnload s e queued) = []
   \<and> handleUnload s e True = handleUnload s e False
   \<and> event (unload_record s e) = page_exit
   \<and> seq (unload_record s e) = seqRef s + 1
   \<and> seqRef (handleUnload s e queued) = seqRef s + 1
   \<and> dwellMs (unload_record s e) = Some (now e - enterAtRef s)
   \<and> depth (unload_record s e) = Some (toFixed2 (maxDepthRef s) @ ''%'')
   \<and> (seq_inv s \<longrightarrow> seq (unload_record s e) \<notin> seq ` set (produced s))
   \<and> (active s \<longrightarrow> step s (e, Unload queued) = handleUnload s e queued)"
proof -
  have fresh: "seq (unload_record s e) \<notin> seq ` set (produced s)" if "seq_inv s"
  proof -
    from that have "set (map seq (produced s)) = set [1..<Suc (seqRef s)]"
      by (simp only: seq_inv_def)
    then have "seq ` set (produced s) = {1..<Suc (seqRef s)}"
      by (simp only: set_map set_upt)
    then show ?thesis by (simp add: unload_record_def)
  qed
  have rest: "beacons (handleUnload s e queued) = beacons s @ [unload_record s e # queueRef s]
   \<and> length (unload_record s e # queueRef s) = length (queueRef s) + 1
   \<and> posted (handleUnload s e queued) = posted s
   \<and> inflight (handleUnload s e queued) = inflight s
   \<and> queueRef (handleUnload s e queued) = []
   \<and> handleUnload s e True = handleUnload s e False
   \<and> event (unload_record s e) = page_exit
   \<and> seq (unload_record s e) = seqRef s + 1
   \<and> seqRef (handleUnload s e queued) = seqRef s + 1
   \<and> dwellMs (unload_record s e) = Some (now e - enterAtRef s)
   \<and> depth (unload_record s e) = Some (toFixed2 (maxDepthRef s) @ ''%'')
   \<and> (active s \<longrightarrow> step s (e, Unload queued) = handleUnload s e queued)"
    by (simp add: handleUnload_def unload_record_def Let_def pct_def)
  from fresh rest show ?thesis by blast
qed

text \<open>The scenario of the specification: two records pending, one beacon of three.\<close>

theorem handleUnload_beacon_witness:
  "active (run logger0 pending1) \<and> seq_inv (run logger0 pending1)
   \<and> map seq (queueRef (run logger0 pending1)) = [1, 2]
   \<and> map (map seq) (beacons (step (run logger0 pending1) (env0\<lparr>now := 1200\<rparr>, Unload False)))
       = [[3, 1, 2]]
   \<and> posted (step (run logger0 pending1) (env0\<lparr>now := 1200\<rparr>, Unload False)) = []
   \<and> queueRef (step (run logger0 pending1) (env0\<lparr>now := 1200\<rparr>, Unload False)) = []
   \<and> depth (unload_record (run logger0 pending1) (env0\<lparr>now := 1200\<rparr>)) = Some ''37.50%''
   \<and> dwellMs (unload_record (run logger0 pending1) (env0\<lparr>now := 1200\<rparr>)) = Some 200
   \<and> seq (unload_record (run logger0 pending1) (env0\<lparr>now := 1200\<rparr>))
       \<notin> seq ` set (produced (run logger0 pending1))"
proof -
  let ?s = "run logger0 pending1"
  let ?e = "env0\<lparr>now := 1200\<rparr>"
  have a: "active ?s" by (simp add: eval_defs pending1_def)
  have i: "seq_inv ?s"
    unfolding logger0_def by (rule seq_inv_run [OF seq_inv_init])
  have q: "map seq (queueRef ?s) = [1, 2]" by (simp add: eval_defs pending1_def)
  have b: "beacons ?s = []" by (simp add: eval_defs pending1_def)
  have p: "posted ?s = []" by (simp add: eval_defs pending1_def)
  have n: "seqRef ?s = 2" by (simp add: eval_defs pending1_def)
  have m: "maxDepthRef ?s = 75 / 2" by (simp add: eval_defs pending1_def)
  have d: "toFixed2 (75 / 2) = ''37.50''" by (rule toFixed2_example)
  have t: "now ?e - enterAtRef ?s = 200" by (simp add: eval_defs pending1_def)
  have d': "toFixed2 (maxDepthRef ?s) = ''37.50''" by (simp only: m d)
  note H = handleUnload_beacon [of ?s ?e False]
  from H a have st: "step ?s (?e, Unload False) = handleUnload ?s ?e False" by blast
  from H have bc: "beacons (handleUnload ?s ?e False)
      = beacons ?s @ [unload_record ?s ?e # queueRef ?s]" by blast
  from H have sq: "seq (unload_record ?s ?e) = seqRef ?s + 1" by blast
  from H have po: "posted (handleUnload ?s ?e False) = posted ?s" by blast
  from H have qu: "queueRef (handleUnload ?s ?e False) = []" by blast
  from H have de: "depth (unload_record ?s ?e) = Some (toFixed2 (maxDepthRef ?s) @ ''%'')"
    by blast
  from H have dw: "dwellMs (unload_record ?s ?e) = Some (now ?e - enterAtRef ?s)" by blast
  have c1: "map (map seq) (beacons (step ?s (?e, Unload False))) = [[3, 1, 2]]"
    by (simp only: st bc b sq n q append_Nil list.map) simp
  have c2: "posted (step ?s (?e, Unload False)) = []" by (simp only: st po p)
  have c3: "queueRef (step ?s (?e, Unload False)) = []" by (simp only: st qu)
  have c4: "depth (unload_record ?s ?e) = Some ''37.50%''" by (simp only: de d') simp
  have c5: "dwellMs (unload_record ?s ?e) = Some 200" by (simp only: dw t)
  from H i have c6: "seq (unload_record ?s ?e) \<notin> seq ` set (produced ?s)" by blast
  from a i q c1 c2 c3 c4 c5 c6 show ?thesis by blast
qed

subsection \<open>Failed and successful deliveries\<close>

lemma busy_listener:
  "flushingRef s \<Longrightarrow>
     flushingRef (listener s e sig) \<and> inflight (listener s e sig) = inflight s
     \<and> posted (listener s e sig) = posted s"
  by (cases sig)
     (simp_all add: onScroll_def onClick_def onTouch_def onVisibilityChange_def onFocus_def
        onBlur_def onInput_def onPopState_def sampleTimer_def Let_def flush_skips
        handleUnload_def split: option.splits prod.splits sum.splits)

lemma busy_step:
  "flushingRef s \<Longrightarrow> \<not> settles (snd x) \<Longrightarrow>
     flushingRef (step s x) \<and> inflight (step s x) = inflight s \<and> posted (step s x) = posted s"
proof -
  assume a: "flushingRef s" and b: "\<not> settles (snd x)"
  obtain e sig where x: "x = (e, sig)" by (cases x)
  show ?thesis
    unfolding x using a b x
    by (cases sig)
       (simp_all add: busy_listener mount_def cleanup_def Let_def flush_skips
          del: listener.simps)
qed

lemma busy_run:
  "flushingRef s \<Longrightarrow> \<forall>x\<in>set sigs. \<not> settles (snd x) \<Longrightarrow>
     flushingRef (run s sigs) \<and> inflight (run s sigs) = inflight s
     \<and> posted (run s sigs) = posted s"
  unfolding run_def
proof (induction sigs arbitrary: s)
  case Nil
  then show ?case by simp
next
  case (Cons x xs)
  from busy_step [of s x] Cons.prems
  have st: "flushingRef (step s x)" "inflight (step s x) = inflight s"
    "posted (step s x) = posted s" by simp_all
  from Cons.IH [of "step s x"] st Cons.prems show ?case by simp
qed

lemma busy_listener_appends:
  "flushingRef s \<Longrightarrow> \<not> unloads sig \<Longrightarrow>
     \<exists>new. queueRef (listener s e sig) = queueRef s @ new
         \<and> produced (listener s e sig) = produced s @ new"
  by (cases sig)
     (simp_all add: onScroll_def onClick_def onTouch_def onVisibilityChange_def onFocus_def
        onBlur_def onInput_def onPopState_def sampleTimer_def Let_def flush_skips
        split: option.splits prod.splits sum.splits)

lemma busy_step_appends:
  "flushingRef s \<Longrightarrow> \<not> settles (snd x) \<Longrightarrow> \<not> unloads (snd x) \<Longrightarrow>
     \<exists>new. queueRef (step s x) = queueRef s @ new \<and> produced (step s x) = produced s @ new"
proof -
  assume a: "flushingRef s" and b: "\<not> settles (snd x)" and c: "\<not> unloads (snd x)"
  obtain e sig where x: "x = (e, sig)" by (cases x)
  show ?thesis
    unfolding x using a b c x
    by (cases sig)
       (simp_all add: busy_listener_appends mount_def cleanup_def Let_def flush_skips
          del: listener.simps)
qed

lemma busy_run_appends:
  "flushingRef s \<Longrightarrow> \<forall>x\<in>set sigs. \<not> settles (snd x) \<and> \<not> unloads (snd x) \<Longrightarrow>
     \<exists>new. queueRef (run s sigs) = queueRef s @ new \<and> produced (run s sigs) = produced s @ new"
proof (induction sigs arbitrary: s)
  case Nil
  show ?case by (simp add: run_def)
next
  case (Cons x xs)
  from Cons.prems have nx: "\<not> settles (snd x)" "\<not> unloads (snd x)" by simp_all
  from busy_step [of s x] Cons.prems have fl: "flushingRef (step s x)" by simp
  from busy_step_appends [OF Cons.prems(1) nx]
  obtain n1 where n1: "queueRef (step s x) = queueRef s @ n1"
    "produced (step s x) = produced s @ n1" by blast
  from Cons.IH [OF fl] Cons.prems(2)
  obtain n2 where n2: "queueRef (run (step s x) xs) = queueRef (step s x) @ n2"
    "produced (run (step s x) xs) = produced (step s x) @ n2" by auto
  have "run s (x # xs) = run (step s x) xs" by (simp add: run_def)
  with n1 n2 show ?case by simp
qed

text \<open>
  What the end of the pending request does to the queue: a rejection (network error or
  thrown exception) puts the whole batch back in front, in its order; a response, of
  whatever status, leaves the queue as it is. Either way no request is pending afterwards
  and the flag is cleared.
\<close>

lemma settled_queue:
  assumes "inflight s = batch # rest" and "batch \<noteq> []"
  shows "(out = NetworkError \<or> out = ThrownException \<longrightarrow>
            queueRef (step s (e, Settled out)) = batch @ queueRef s)
         \<and> (out = HttpResponse status \<longrightarrow>
            queueRef (step s (e, Settled out)) = queueRef s)
         \<and> inflight (step s (e, Settled out)) = rest
         \<and> \<not> flushingRef (step s (e, Settled out))"
  using assms
  by (auto simp: flush_settled_def sendEvents_def Let_def split: fetch_outcome.splits)

text \<open>
  C2. The claim: whenever the delivery of a drained batch fails, by a network error, a
  response that is not a success or a thrown exception, the whole batch is put back in
  front of the queue and none of its records is lost. The code does this for a rejected
  request only. Here the batch with record 1 is pending and record 2 is queued; the server
  answers 500, a failed delivery in the words of the specification; afterwards the queue
  holds record 2 alone, nothing is pending, and record 1 is lost.
\<close>

theorem http_error_discards_batch:
  "spec_delivery_failed (HttpResponse 500)
   \<and> map (map seq) (inflight (run logger0 busy0)) = [[1]]
   \<and> map seq (queueRef (run logger0 busy0)) = [2]
   \<and> map seq (queueRef (step (run logger0 busy0)
                  (env0\<lparr>now := 1600\<rparr>, Settled (HttpResponse 500)))) = [2]
   \<and> map seq (queueRef (step (run logger0 busy0)
                  (env0\<lparr>now := 1600\<rparr>, Settled (HttpResponse 500))))
       \<noteq> map seq (hd (inflight (run logger0 busy0)) @ queueRef (run logger0 busy0))
   \<and> inflight (step (run logger0 busy0) (env0\<lparr>now := 1600\<rparr>, Settled (HttpResponse 500)))
       = []"
  by (simp add: eval_defs busy0_def spec_delivery_failed_def)

text \<open>
  C3. Take an idle instance with a queue that is not empty. The flush drains the queue as
  one batch and sends it. Whatever happens before the request settles, when it is rejected
  the batch is back in front of what is queued then, and the next flush drains and sends
  the batch, unchanged, in its order, once, followed by that remainder; the queue is empty
  again. Unless the Unload Guard ran in between, the remainder is exactly the records
  constructed since the first drain.
\<close>

theorem requeue_roundtrip:
  assumes idle: "\<not> flushingRef s" "inflight s = []"
    and batch: "queueRef s \<noteq> []"
    and pending: "\<forall>x\<in>set sigs. \<not> settles (snd x)"
    and failed: "sendEvents (queueRef s) out = Rejected"
  shows "posted (flush s) = posted s @ [queueRef s] \<and> queueRef (flush s) = []
    \<and> queueRef (step (run (flush s) sigs) (e, Settled out))
        = queueRef s @ queueRef (run (flush s) sigs)
    \<and> posted (flush (step (run (flush s) sigs) (e, Settled out)))
        = posted s @ [queueRef s, queueRef s @ queueRef (run (flush s) sigs)]
    \<and> queueRef (flush (step (run (flush s) sigs) (e, Settled out))) = []
    \<and> ((\<forall>x\<in>set sigs. \<not> unloads (snd x)) \<longrightarrow>
          produced (run (flush s) sigs) = produced s @ queueRef (run (flush s) sigs))"
proof -
  let ?s1 = "flush s"
  let ?s2 = "run ?s1 sigs"
  let ?s3 = "step ?s2 (e, Settled out)"
  from idle batch have f1: "flushingRef ?s1" "inflight ?s1 = [queueRef s]"
    "posted ?s1 = posted s @ [queueRef s]" "queueRef ?s1 = []" "produced ?s1 = produced s"
    by (simp_all add: flush_def Let_def)
  from busy_run [OF f1(1) pending] f1
  have f2: "flushingRef ?s2" "inflight ?s2 = [queueRef s]" "posted ?s2 = posted s @ [queueRef s]"
    by simp_all
  from f2 failed have f3: "queueRef ?s3 = queueRef s @ queueRef ?s2" "\<not> flushingRef ?s3"
    "posted ?s3 = posted s @ [queueRef s]"
    by (simp_all add: flush_settled_def Let_def)
  from f3 batch have f4: "posted (flush ?s3) = posted s @ [queueRef s, queueRef s @ queueRef ?s2]"
    "queueRef (flush ?s3) = []"
    by (simp_all add: flush_def Let_def)
  have f5: "produced ?s2 = produced s @ queueRef ?s2" if "\<forall>x\<in>set sigs. \<not> unloads (snd x)"
  proof -
    from that pending have "\<forall>x\<in>set sigs. \<not> settles (snd x) \<and> \<not> unloads (snd x)" by simp
    from busy_run_appends [OF f1(1) this] f1 show ?thesis by auto
  qed
  from f1 f3 f4 f5 show ?thesis by blast
qed

text \<open>
  Record 1 is drained; a heartbeat and a click are pushed while the request is pending; the
  request fails; the second request carries records 1, 2, 3.
\<close>

theorem requeue_roundtrip_witness:
  "map (map seq) (posted (flush (step (run (flush idle0) between0)
      (env0\<lparr>now := 1700\<rparr>, Settled NetworkError)))) = [[1], [1, 2, 3]]
   \<and> map seq (queueRef (step (run (flush idle0) between0)
      (env0\<lparr>now := 1700\<rparr>, Settled NetworkError))) = [1, 2, 3]
   \<and> queueRef (flush (step (run (flush idle0) between0)
      (env0\<lparr>now := 1700\<rparr>, Settled NetworkError))) = []
   \<and> map seq (produced (run (flush idle0) between0)) = [1, 2, 3]"
proof -
  let ?e = "env0\<lparr>now := 1700\<rparr>"
  have f: "\<not> flushingRef idle0" by (simp add: eval_defs idle0_def)
  have i0: "inflight idle0 = []" by (simp add: eval_defs idle0_def)
  have p: "posted idle0 = []" by (simp add: eval_defs idle0_def)
  have q: "map seq (queueRef idle0) = [1]" by (simp add: eval_defs idle0_def)
  have q2: "map seq (queueRef (run (flush idle0) between0)) = [2, 3]"
    by (simp add: eval_defs idle0_def between0_def)
  from q have ne: "queueRef idle0 \<noteq> []" by auto
  have n: "\<forall>x\<in>set between0. \<not> settles (snd x)" by (simp add: between0_def)
  from ne have r: "sendEvents (queueRef idle0) NetworkError = Rejected"
    by (simp add: sendEvents_def)
  have u: "\<forall>x\<in>set between0. \<not> unloads (snd x)" by (simp add: between0_def)
  have pr: "map seq (produced idle0) = [1]" by (simp add: eval_defs idle0_def)
  from requeue_roundtrip [OF f i0 ne n r, of ?e] p q q2 u pr
  show ?thesis by simp
qed

subsection \<open>Meta bags\<close>

text \<open>
  C10. \<^verbatim>\<open>push\<close> appends one record whose meta bag has the key \<^verbatim>\<open>visibility\<close>; the bag
  is the event's own meta laid over the defaults: a key of the event's meta keeps the
  event's value, the key \<^verbatim>\<open>visibility\<close> otherwise holds the current visibility state,
  and every other key comes from the profile fragment, which holds the viewer's age and
  occupation when the profile is known. The synthetic page_exit of the Unload Guard is the
  exception: its bag is the profile fragment alone, with the keys \<^verbatim>\<open>age\<close> and
  \<^verbatim>\<open>occupation\<close> and without \<^verbatim>\<open>visibility\<close>.
\<close>

theorem push_meta_overlay:
  "queueRef (push s e p) = queueRef s @ [push_record s e p]
   \<and> meta (push_record s e p) = Some (push_meta s e (p_meta p))
   \<and> ''visibility'' \<in> dom (push_meta s e (p_meta p))
   \<and> (\<forall>k. push_meta s e (p_meta p) k =
         (case (case p_meta p of None \<Rightarrow> Map.empty | Some pm \<Rightarrow> pm) k of
            Some v \<Rightarrow> Some v
          | None \<Rightarrow> if k = ''visibility'' then Some (Str (visibilityState e))
                    else profile_meta (cfg_userProfile (config s)) k))
   \<and> (\<forall>u. cfg_userProfile (config s) = Some u \<longrightarrow>
         profile_meta (cfg_userProfile (config s)) ''age'' = Some (Num (of_int (age u)))
         \<and> profile_meta (cfg_userProfile (config s)) ''occupation'' = Some (Str (occupation u)))
   \<and> meta (unload_record s e) = Some (profile_meta (cfg_userProfile (config s)))
   \<and> dom (profile_meta (cfg_userProfile (config s))) = {''age'', ''occupation''}
   \<and> profile_meta (cfg_userProfile (config s)) ''visibility'' = None"
proof -
  have a: "queueRef (push s e p) = queueRef s @ [push_record s e p]" by simp
  have b: "meta (push_record s e p) = Some (push_meta s e (p_meta p))"
    by (simp add: push_record_def)
  have c: "''visibility'' \<in> dom (push_meta s e (p_meta p))"
    by (simp add: push_meta_def)
  have d: "push_meta s e (p_meta p) k =
         (case (case p_meta p of None \<Rightarrow> Map.empty | Some pm \<Rightarrow> pm) k of
            Some v \<Rightarrow> Some v
          | None \<Rightarrow> if k = ''visibility'' then Some (Str (visibilityState e))
                    else profile_meta (cfg_userProfile (config s)) k)" for k
    by (simp add: push_meta_def map_add_def split: option.splits)
  have f: "profile_meta (cfg_userProfile (config s)) ''age'' = Some (Num (of_int (age u)))
         \<and> profile_meta (cfg_userProfile (config s)) ''occupation'' = Some (Str (occupation u))"
    if "cfg_userProfile (config s) = Some u" for u
    using that by (simp add: profile_meta_def)
  have g: "meta (unload_record s e) = Some (profile_meta (cfg_userProfile (config s)))"
    by (simp add: unload_record_def)
  have h: "dom (profile_meta (cfg_userProfile (config s))) = {''age'', ''occupation''}"
    by (auto simp: profile_meta_def)
  have i: "profile_meta (cfg_userProfile (config s)) ''visibility'' = None"
    by (simp add: profile_meta_def)
  from a b c d f g h i show ?thesis by blast
qed

text \<open>
  An event meta that has its own \<^verbatim>\<open>visibility\<close> key overrides the default; one without
  meta gets the browser's state.
\<close>

theorem push_meta_overlay_witness:
  "push_meta idle0 env0 (p_meta overlay0) ''visibility'' = Some (Str ''forced'')
   \<and> push_meta idle0 env0 (p_meta overlay0) ''x'' = Some (Num 1)
   \<and> push_meta idle0 env0 (p_meta overlay0) ''age'' = Some (Num 30)
   \<and> push_meta idle0 env0 (p_meta overlay0) ''occupation'' = Some (Str ''nurse'')
   \<and> push_meta idle0 env0 (p_meta (partial focus)) ''visibility'' = Some (Str ''visible'')
   \<and> ''visibility'' \<notin> dom (the (meta (unload_record idle0 env0)))"
proof -
  let ?u = "cfg_userProfile (config idle0)"
  have u: "?u = Some \<lparr>age = 30, occupation = ''nurse''\<rparr>"
    by (simp add: eval_defs idle0_def)
  have v: "visibilityState env0 = ''visible''" by (simp add: env0_def)
  have m: "p_meta overlay0 = Some [''visibility'' \<mapsto> Str ''forced'', ''x'' \<mapsto> Num 1]"
    "p_meta (partial focus) = None"
    by (simp_all add: overlay0_def partial_def)
  note H = push_meta_overlay [of idle0 env0 overlay0]
  from H have k: "\<forall>k. push_meta idle0 env0 (p_meta overlay0) k =
         (case (case p_meta overlay0 of None \<Rightarrow> Map.empty | Some pm \<Rightarrow> pm) k of
            Some v \<Rightarrow> Some v
          | None \<Rightarrow> if k = ''visibility'' then Some (Str (visibilityState env0))
                    else profile_meta ?u k)"
    by (elim conjE)
  from H have pr: "\<forall>u. ?u = Some u \<longrightarrow>
         profile_meta ?u ''age'' = Some (Num (of_int (age u)))
         \<and> profile_meta ?u ''occupation'' = Some (Str (occupation u))"
    by (elim conjE)
  from H have un: "meta (unload_record idle0 env0) = Some (profile_meta ?u)"
    by (elim conjE)
  from H have nv: "profile_meta ?u ''visibility'' = None"
    by (elim conjE)
  from push_meta_overlay [of idle0 env0 "partial focus"]
  have k2: "\<forall>k. push_meta idle0 env0 (p_meta (partial focus)) k =
         (case (case p_meta (partial focus) of None \<Rightarrow> Map.empty | Some pm \<Rightarrow> pm) k of
            Some v \<Rightarrow> Some v
          | None \<Rightarrow> if k = ''visibility'' then Some (Str (visibilityState env0))
                    else profile_meta ?u k)"
    by (elim conjE)
  from pr u have pa: "profile_meta ?u ''age'' = Some (Num 30)"
    and po: "profile_meta ?u ''occupation'' = Some (Str ''nurse'')" by simp_all
  have c1: "push_meta idle0 env0 (p_meta overlay0) ''visibility'' = Some (Str ''forced'')"
    using k [rule_format, of "''visibility''"] by (simp add: m(1))
  have c2: "push_meta idle0 env0 (p_meta overlay0) ''x'' = Some (Num 1)"
    using k [rule_format, of "''x''"] by (simp add: m(1))
  have c3: "push_meta idle0 env0 (p_meta overlay0) ''age'' = Some (Num 30)"
    using k [rule_format, of "''age''"] by (simp add: m(1) pa)
  have c4: "push_meta idle0 env0 (p_meta overlay0) ''occupation'' = Some (Str ''nurse'')"
    using k [rule_format, of "''occupation''"] by (simp add: m(1) po)
  have c5: "push_meta idle0 env0 (p_meta (partial focus)) ''visibility'' = Some (Str ''visible'')"
    using k2 [rule_format, of "''visibility''"] by (simp add: m(2) v)
  have c6: "''visibility'' \<notin> dom (the (meta (unload_record idle0 env0)))"
    by (simp add: un nv domIff)
  from c1 c2 c3 c4 c5 c6 show ?thesis by (intro conjI)
qed

subsection \<open>Running maximum of the scroll depth\<close>

lemma hundredths_mono: "\<bar>x\<bar> \<le> \<bar>y\<bar> \<Longrightarrow> hundredths x \<le> hundredths y"
  unfolding hundredths_def by (intro nat_mono floor_mono) simp

lemma Number_toFixed2_mono: "x \<le> y \<Longrightarrow> Number_toFixed2 x \<le> Number_toFixed2 y"
proof -
  assume xy: "x \<le> y"
  have nn: "(0::rat) \<le> of_nat (hundredths z) / 100" for z by simp
  show ?thesis
  proof (cases "y < 0")
    case True
    with xy have "\<bar>y\<bar> \<le> \<bar>x\<bar>" by simp
    then have "hundredths y \<le> hundredths x" by (rule hundredths_mono)
    then have "(of_nat (hundredths y) :: rat) / 100 \<le> of_nat (hundredths x) / 100"
      by (simp add: divide_right_mono)
    with True xy show ?thesis by (simp add: Number_toFixed2_def)
  next
    case False
    note y = this
    show ?thesis
    proof (cases "x < 0")
      case True
      have "- (of_nat (hundredths x) / 100) \<le> (0::rat)" using nn [of x] by simp
      also have "\<dots> \<le> of_nat (hundredths y) / 100" by (rule nn)
      finally show ?thesis using True y by (simp add: Number_toFixed2_def)
    next
      case False
      with xy y have "\<bar>x\<bar> \<le> \<bar>y\<bar>" by simp
      then have "hundredths x \<le> hundredths y" by (rule hundredths_mono)
      then have "(of_nat (hundredths x) :: rat) / 100 \<le> of_nat (hundredths y) / 100"
        by (simp add: divide_right_mono)
      with False y show ?thesis by (simp add: Number_toFixed2_def)
    qed
  qed
qed

lemma maxDepthPct_of_push:
  "maxDepthPct_of (push_record s e p) =
     (case p_meta p of None \<Rightarrow> None
      | Some m \<Rightarrow> (case m ''maxDepthPct'' of Some (Num x) \<Rightarrow> Some x | _ \<Rightarrow> None))"
  by (simp add: maxDepthPct_of_def push_record_def push_meta_def profile_meta_def map_add_def
      split: option.splits jsval.splits)

lemma recorded_single:
  "recorded_maxDepths [r] = (case maxDepthPct_of r of None \<Rightarrow> [] | Some x \<Rightarrow> [x])"
  by (simp add: recorded_maxDepths_def map_filter_simps split: option.splits)

lemma depth_step_refl: "depth_step s s"
  by (simp add: depth_step_def recorded_maxDepths_def)

lemma depth_step_push_plain:
  "(case p_meta p of None \<Rightarrow> None | Some m \<Rightarrow> m ''maxDepthPct'') = None \<Longrightarrow>
     depth_step s (push s e p)"
  by (simp add: depth_step_def recorded_single maxDepthPct_of_push split: option.splits)

lemma depth_step_flush: "depth_step s (flush s)"
  by (simp add: depth_step_def flush_def Let_def recorded_maxDepths_def)

lemma depth_step_listener: "depth_step s (listener s e sig)"
proof (cases sig)
  case Scroll
  then show ?thesis
    by (simp add: onScroll_def Let_def depth_step_def recorded_single maxDepthPct_of_push partial_def)
next
  case SampleTick
  then show ?thesis
    by (simp add: sampleTimer_def Let_def depth_step_def recorded_single maxDepthPct_of_push partial_def)
next
  case (Click t x y)
  then show ?thesis
    by (simp add: onClick_def Let_def depth_step_push_plain depth_step_refl partial_def
        split: sum.splits)
next
  case (TouchStart t n)
  then show ?thesis
    by (simp add: onTouch_def depth_step_push_plain depth_step_refl partial_def
        split: option.splits prod.splits sum.splits)
next
  case (TouchMove t n)
  then show ?thesis
    by (simp add: onTouch_def depth_step_push_plain depth_step_refl partial_def
        split: option.splits prod.splits sum.splits)
next
  case (TouchEnd t n)
  then show ?thesis
    by (simp add: onTouch_def depth_step_push_plain depth_step_refl partial_def
        split: option.splits prod.splits sum.splits)
next
  case VisibilityChange
  then show ?thesis
    by (simp add: onVisibilityChange_def Let_def depth_step_def recorded_single
        maxDepthPct_of_push partial_def)
next
  case Focus
  then show ?thesis by (simp add: onFocus_def depth_step_push_plain partial_def)
next
  case Blur
  then show ?thesis by (simp add: onBlur_def depth_step_push_plain partial_def)
next
  case (Input t)
  then show ?thesis
    by (simp add: onInput_def Let_def depth_step_push_plain depth_step_refl partial_def
        split: option.splits)
next
  case PopState
  then show ?thesis by (simp add: onPopState_def depth_step_push_plain partial_def)
next
  case FlushTick
  then show ?thesis by (simp add: depth_step_flush)
next
  case (Unload q)
  then show ?thesis
    by (simp add: handleUnload_def Let_def depth_step_def recorded_single maxDepthPct_of_def
        unload_record_def profile_meta_def)
next
  case (Mount c)
  then show ?thesis by (simp add: depth_step_refl)
next
  case Unmount
  then show ?thesis by (simp add: depth_step_refl)
next
  case (Settled out)
  then show ?thesis by (simp add: depth_step_refl)
qed


lemma depth_step_step: "\<not> sets_up (snd x) \<Longrightarrow> depth_step s (step s x)"
proof -
  assume a: "\<not> sets_up (snd x)"
  obtain e sig where x: "x = (e, sig)" by (cases x)
  have c: "depth_step s (cleanup s e)"
    by (simp add: cleanup_def Let_def flush_def depth_step_def recorded_single
        maxDepthPct_of_push partial_def recorded_maxDepths_def)
  have f: "depth_step s (flush_settled s out)" for out
    by (simp add: flush_settled_def Let_def depth_step_def recorded_maxDepths_def
        split: list.splits settled.splits)
  show ?thesis
    unfolding x using a x
    by (cases sig) (simp_all add: depth_step_listener depth_step_refl c f del: listener.simps)
qed

lemma recorded_append:
  "recorded_maxDepths (xs @ ys) = recorded_maxDepths xs @ recorded_maxDepths ys"
  by (simp add: recorded_maxDepths_def map_filter_def)

lemma sorted_const: "\<forall>x\<in>set xs. x = v \<Longrightarrow> sorted xs"
  by (induction xs) auto

lemma depth_run:
  "\<forall>x\<in>set sigs. \<not> sets_up (snd x) \<Longrightarrow>
     maxDepthRef s \<le> maxDepthRef (run s sigs)
     \<and> (\<exists>new. produced (run s sigs) = produced s @ new
           \<and> sorted (recorded_maxDepths new)
           \<and> (\<forall>x\<in>set (recorded_maxDepths new). Number_toFixed2 (maxDepthRef s) \<le> x))"
proof (induction sigs arbitrary: s)
  case Nil
  show ?case by (simp add: run_def recorded_maxDepths_def)
next
  case (Cons y ys)
  let ?s1 = "step s y"
  from Cons.prems have ny: "\<not> sets_up (snd y)" and nys: "\<forall>x\<in>set ys. \<not> sets_up (snd x)"
    by simp_all
  from depth_step_step [OF ny, of s]
  obtain n1 where m1: "maxDepthRef s \<le> maxDepthRef ?s1"
    and p1: "produced ?s1 = produced s @ n1"
    and v1: "\<forall>x\<in>set (recorded_maxDepths n1). x = Number_toFixed2 (maxDepthRef ?s1)"
    unfolding depth_step_def by blast
  from Cons.IH [OF nys, of ?s1]
  obtain n2 where m2: "maxDepthRef ?s1 \<le> maxDepthRef (run ?s1 ys)"
    and p2: "produced (run ?s1 ys) = produced ?s1 @ n2"
    and s2: "sorted (recorded_maxDepths n2)"
    and v2: "\<forall>x\<in>set (recorded_maxDepths n2). Number_toFixed2 (maxDepthRef ?s1) \<le> x"
    by blast
  have r: "run s (y # ys) = run ?s1 ys" by (simp add: run_def)
  have f: "Number_toFixed2 (maxDepthRef s) \<le> Number_toFixed2 (maxDepthRef ?s1)"
    using m1 by (rule Number_toFixed2_mono)
  have a: "maxDepthRef s \<le> maxDepthRef (run s (y # ys))" using m1 m2 r by simp
  have b: "produced (run s (y # ys)) = produced s @ (n1 @ n2)" using p1 p2 r by simp
  have c: "sorted (recorded_maxDepths (n1 @ n2))"
    using sorted_const [OF v1] s2 v1 v2 by (auto simp: recorded_append sorted_append)
  have d: "\<forall>x\<in>set (recorded_maxDepths (n1 @ n2)). Number_toFixed2 (maxDepthRef s) \<le> x"
    using v1 v2 f by (auto simp: recorded_append)
  from a b c d show ?case by blast
qed

lemma sample_step:
  "active s \<Longrightarrow> samples_depth (snd x) \<Longrightarrow>
     active (step s x)
     \<and> (\<exists>r. produced (step s x) = produced s @ [r] \<and> maxDepthPct_of r \<noteq> None)"
proof -
  assume a: "active s" and b: "samples_depth (snd x)"
  obtain e sig where x: "x = (e, sig)" by (cases x)
  show ?thesis
    unfolding x using a b x
    by (cases sig)
       (simp_all add: onScroll_def sampleTimer_def Let_def maxDepthPct_of_push partial_def)
qed

lemma sample_run:
  "active s \<Longrightarrow> \<forall>x\<in>set sigs. samples_depth (snd x) \<Longrightarrow>
     \<exists>new. produced (run s sigs) = produced s @ new
        \<and> length (recorded_maxDepths new) = length sigs"
proof (induction sigs arbitrary: s)
  case Nil
  show ?case by (simp add: run_def recorded_maxDepths_def)
next
  case (Cons y ys)
  let ?s1 = "step s y"
  from Cons.prems have sy: "samples_depth (snd y)"
    and sys: "\<forall>x\<in>set ys. samples_depth (snd x)" by simp_all
  from sample_step [OF Cons.prems(1) sy]
  obtain r where a1: "active ?s1" and p1: "produced ?s1 = produced s @ [r]"
    and r: "maxDepthPct_of r \<noteq> None" by blast
  from Cons.IH [OF a1 sys]
  obtain n2 where p2: "produced (run ?s1 ys) = produced ?s1 @ n2"
    and l2: "length (recorded_maxDepths n2) = length ys" by blast
  have e: "run s (y # ys) = run ?s1 ys" by (simp add: run_def)
  from r have l1: "length (recorded_maxDepths [r]) = 1"
    by (auto simp: recorded_single)
  have "produced (run s (y # ys)) = produced s @ ([r] @ n2)" using p1 p2 e by simp
  moreover have "length (recorded_maxDepths ([r] @ n2)) = length (y # ys)"
    using l1 l2 by (simp only: recorded_append length_append) simp
  ultimately show ?case by blast
qed

text \<open>
  C8. From any state of a hook instance, over any sequence of signals that does not set
  the effect up anew (scroll events and heartbeats in particular), the running maximum
  never decreases, and the \<^verbatim>\<open>maxDepthPct\<close> values of the records constructed, in
  their order, never decrease. While the instance is active, every scroll event and every
  heartbeat contributes one such value.
\<close>

theorem maxDepth_monotone:
  assumes "\<forall>x\<in>set sigs. \<not> sets_up (snd x)"
  shows "sorted (recorded_maxDepths (drop (length (produced s)) (produced (run s sigs))))
         \<and> maxDepthRef s \<le> maxDepthRef (run s sigs)
         \<and> (active s \<and> (\<forall>x\<in>set sigs. samples_depth (snd x)) \<longrightarrow>
              length (recorded_maxDepths (drop (length (produced s)) (produced (run s sigs))))
                = length sigs)"
proof -
  from depth_run [OF assms, of s]
  obtain new where "produced (run s sigs) = produced s @ new"
    and "sorted (recorded_maxDepths new)" and "maxDepthRef s \<le> maxDepthRef (run s sigs)"
    by blast
  then have a: "sorted (recorded_maxDepths (drop (length (produced s)) (produced (run s sigs))))
         \<and> maxDepthRef s \<le> maxDepthRef (run s sigs)" by simp
  have b: "length (recorded_maxDepths (drop (length (produced s)) (produced (run s sigs))))
                = length sigs"
    if "active s" and "\<forall>x\<in>set sigs. samples_depth (snd x)"
  proof -
    from sample_run [OF that]
    obtain new where "produced (run s sigs) = produced s @ new"
      and "length (recorded_maxDepths new) = length sigs" by blast
    then show ?thesis by simp
  qed
  from a b show ?thesis by blast
qed

lemma Number_toFixed2_examples:
  "Number_toFixed2 (25 / 2) = 25 / 2" "Number_toFixed2 (75 / 2) = 75 / 2"
proof -
  have "\<lfloor>(2501::rat) / 2\<rfloor> = 1250"
    using floor_divide_of_int_eq [of 2501 2, where ?'a = rat] by simp
  then show "Number_toFixed2 (25 / 2) = 25 / 2"
    by (simp add: Number_toFixed2_def hundredths_def)
  have "\<lfloor>(7501::rat) / 2\<rfloor> = 3750"
    using floor_divide_of_int_eq [of 7501 2, where ?'a = rat] by simp
  then show "Number_toFixed2 (75 / 2) = 75 / 2"
    by (simp add: Number_toFixed2_def hundredths_def)
qed

text \<open>
  A scroll to depth 37.5, then a heartbeat when the page is back at depth 12.5: both
  records carry 37.5.
\<close>

theorem maxDepth_monotone_witness:
  "recorded_maxDepths (drop (length (produced idle0)) (produced (run idle0 depths0)))
     = [75 / 2, 75 / 2]
   \<and> sorted (recorded_maxDepths (drop (length (produced idle0)) (produced (run idle0 depths0))))
   \<and> maxDepthRef idle0 \<le> maxDepthRef (run idle0 depths0)
   \<and> length (recorded_maxDepths (drop (length (produced idle0)) (produced (run idle0 depths0))))
       = length depths0"
proof -
  have n: "\<forall>x\<in>set depths0. \<not> sets_up (snd x)" by (simp add: depths0_def)
  have m: "\<forall>x\<in>set depths0. samples_depth (snd x)" by (simp add: depths0_def)
  have a: "active idle0" by (simp add: eval_defs idle0_def)
  have l: "length (produced idle0) = 1" by (simp add: eval_defs idle0_def)
  have v: "recorded_maxDepths (drop (Suc 0) (produced (run idle0 depths0)))
     = [75 / 2, 75 / 2]"
    by (simp add: eval_defs idle0_def depths0_def recorded_maxDepths_def map_filter_simps
        maxDepthPct_of_push partial_def Number_toFixed2_examples)
  from maxDepth_monotone [OF n, of idle0] a m l v show ?thesis by simp
qed

subsection \<open>Session and page-session identifiers\<close>

lemma of_char_digit: "d < 10 \<Longrightarrow> (of_char (digit_char d) :: nat) = 48 + d"
  by (simp add: digit_char_def)

lemma digit_char_inj: "a < 10 \<Longrightarrow> b < 10 \<Longrightarrow> digit_char a = digit_char b \<Longrightarrow> a = b"
proof -
  assume a: "a < 10" and b: "b < 10" and e: "digit_char a = digit_char b"
  from e have "(of_char (digit_char a) :: nat) = of_char (digit_char b)" by simp
  with a b show ?thesis by (simp add: of_char_digit)
qed

lemma digit_char_plain: "d < 10 \<Longrightarrow> digit_char d \<noteq> CHR ''_''"
proof
  assume d: "d < 10" and e: "digit_char d = CHR ''_''"
  from e have "(of_char (digit_char d) :: nat) = of_char CHR ''_''" by simp
  with d show False by (simp add: of_char_digit)
qed

lemma digit_char_not_minus: "d < 10 \<Longrightarrow> digit_char d \<noteq> CHR ''-''"
proof
  assume d: "d < 10" and e: "digit_char d = CHR ''-''"
  from e have "(of_char (digit_char d) :: nat) = of_char CHR ''-''" by simp
  with d show False by (simp add: of_char_digit)
qed

lemma string_of_nat_plain: "CHR ''_'' \<notin> set (string_of_nat n) \<and> CHR ''-'' \<notin> set (string_of_nat n)"
proof (induction n rule: string_of_nat.induct)
  case (1 n)
  show ?case
  proof (cases "n < 10")
    case True
    then show ?thesis
      using digit_char_plain [of n] digit_char_not_minus [of n]
      by (simp add: string_of_nat.simps [of n])
  next
    case False
    have m: "n mod 10 < 10" by simp
    from False 1 have ih: "CHR ''_'' \<notin> set (string_of_nat (n div 10))
       \<and> CHR ''-'' \<notin> set (string_of_nat (n div 10))" by simp
    with False show ?thesis
      using digit_char_plain [OF m] digit_char_not_minus [OF m]
      by (simp add: string_of_nat.simps [of n])
  qed
qed

lemma string_of_nat_nonempty: "string_of_nat n \<noteq> []"
  by (simp add: string_of_nat.simps [of n])

lemma string_of_nat_inj: "string_of_nat n = string_of_nat m \<Longrightarrow> n = m"
proof (induction n arbitrary: m rule: string_of_nat.induct)
  case (1 n)
  show ?case
  proof (cases "n < 10")
    case True
    note n = this
    show ?thesis
    proof (cases "m < 10")
      case True
      with n 1(2) have "digit_char n = digit_char m"
        by (simp add: string_of_nat.simps [of n] string_of_nat.simps [of m])
      with n True show ?thesis by (rule digit_char_inj)
    next
      case False
      with n 1(2) have "[digit_char n] = string_of_nat (m div 10) @ [digit_char (m mod 10)]"
        by (simp add: string_of_nat.simps [of n] string_of_nat.simps [of m])
      then have "string_of_nat (m div 10) = []" by simp
      with string_of_nat_nonempty show ?thesis by blast
    qed
  next
    case False
    note n = this
    show ?thesis
    proof (cases "m < 10")
      case True
      with n 1(2) have "string_of_nat (n div 10) @ [digit_char (n mod 10)] = [digit_char m]"
        by (simp add: string_of_nat.simps [of n] string_of_nat.simps [of m])
      then have "string_of_nat (n div 10) = []" by simp
      with string_of_nat_nonempty show ?thesis by blast
    next
      case False
      with n 1(2) have e: "string_of_nat (n div 10) @ [digit_char (n mod 10)]
          = string_of_nat (m div 10) @ [digit_char (m mod 10)]"
        by (simp add: string_of_nat.simps [of n] string_of_nat.simps [of m])
      then have a: "string_of_nat (n div 10) = string_of_nat (m div 10)"
        and b: "digit_char (n mod 10) = digit_char (m mod 10)" by simp_all
      from 1(1) [OF n a] have d: "n div 10 = m div 10" .
      have "n mod 10 = m mod 10" by (rule digit_char_inj [OF _ _ b]) simp_all
      with d show ?thesis by (metis div_mult_mod_eq)
    qed
  qed
qed

lemma string_of_int_plain: "CHR ''_'' \<notin> set (string_of_int i)"
  by (simp add: string_of_int_def string_of_nat_plain)

lemma string_of_int_inj: "string_of_int i = string_of_int j \<Longrightarrow> i = j"
proof -
  assume e: "string_of_int i = string_of_int j"
  have hd_nat: "hd (string_of_nat n) \<noteq> CHR ''-''" for n
    using string_of_nat_plain [of n] string_of_nat_nonempty [of n]
    by (cases "string_of_nat n") auto
  show ?thesis
  proof (cases "i < 0")
    case True
    note i = this
    show ?thesis
    proof (cases "j < 0")
      case True
      with i e have "string_of_nat (nat (- i)) = string_of_nat (nat (- j))"
        by (simp add: string_of_int_def)
      then have "nat (- i) = nat (- j)" by (rule string_of_nat_inj)
      with i True show ?thesis by simp
    next
      case False
      with i e have "CHR ''-'' # string_of_nat (nat (- i)) = string_of_nat (nat j)"
        by (simp add: string_of_int_def)
      then have "hd (string_of_nat (nat j)) = CHR ''-''" by (metis list.sel(1))
      with hd_nat show ?thesis by blast
    qed
  next
    case False
    note i = this
    show ?thesis
    proof (cases "j < 0")
      case True
      with i e have "string_of_nat (nat i) = CHR ''-'' # string_of_nat (nat (- j))"
        by (simp add: string_of_int_def)
      then have "hd (string_of_nat (nat i)) = CHR ''-''" by (metis list.sel(1))
      with hd_nat show ?thesis by blast
    next
      case False
      with i e have "string_of_nat (nat i) = string_of_nat (nat j)"
        by (simp add: string_of_int_def)
      then have "nat i = nat j" by (rule string_of_nat_inj)
      with i False show ?thesis by simp
    qed
  qed
qed

lemma split_at_first:
  "c \<notin> set xs \<Longrightarrow> c \<notin> set ys \<Longrightarrow> xs @ c # us = ys @ c # vs \<Longrightarrow> xs = ys \<and> us = vs"
proof (induction xs arbitrary: ys)
  case Nil
  then show ?case by (cases ys) auto
next
  case (Cons x xs)
  then show ?case by (cases ys) auto
qed


lemma ids_listener:
  "pageSessionIdRef (listener s e sig) = pageSessionIdRef s
   \<and> sessionIdRef (listener s e sig) = sessionIdRef s"
  by (cases sig)
     (simp_all add: onScroll_def onClick_def onTouch_def onVisibilityChange_def onFocus_def
        onBlur_def onInput_def onPopState_def sampleTimer_def Let_def flush_def
        handleUnload_def split: option.splits prod.splits sum.splits)

lemma ids_step:
  "pageSessionIdRef (step s x) = pageSessionIdRef s \<and> sessionIdRef (step s x) = sessionIdRef s"
proof -
  obtain e sig where x: "x = (e, sig)" by (cases x)
  have f: "pageSessionIdRef (flush_settled s out) = pageSessionIdRef s
     \<and> sessionIdRef (flush_settled s out) = sessionIdRef s" for out
    by (simp add: flush_settled_def Let_def split: list.splits settled.splits)
  show ?thesis
    unfolding x
    by (cases sig)
       (simp_all add: ids_listener mount_def cleanup_def Let_def flush_def f
          del: listener.simps)
qed

lemma ids_run:
  "pageSessionIdRef (run s sigs) = pageSessionIdRef s \<and> sessionIdRef (run s sigs) = sessionIdRef s"
  unfolding run_def by (induction sigs arbitrary: s) (simp_all add: ids_step)

lemma page_id_eq:
  "(''pg_'' @ string_of_int t1 @ ''_'' @ r1 = ''pg_'' @ string_of_int t2 @ ''_'' @ r2)
     = (t1 = t2 \<and> r1 = r2)"
proof
  assume "''pg_'' @ string_of_int t1 @ ''_'' @ r1 = ''pg_'' @ string_of_int t2 @ ''_'' @ r2"
  then have "string_of_int t1 @ CHR ''_'' # r1 = string_of_int t2 @ CHR ''_'' # r2" by simp
  from split_at_first [OF string_of_int_plain string_of_int_plain this]
  show "t1 = t2 \<and> r1 = r2" by (auto dest: string_of_int_inj)
next
  assume "t1 = t2 \<and> r1 = r2"
  then show "''pg_'' @ string_of_int t1 @ ''_'' @ r1 = ''pg_'' @ string_of_int t2 @ ''_'' @ r2"
    by simp
qed

lemma ids_records_run:
  "\<forall>r\<in>set (produced s). pageSessionId r = pageSessionIdRef s \<and> sessionId r = sessionIdRef s \<Longrightarrow>
     \<forall>r\<in>set (produced (run s sigs)).
        pageSessionId r = pageSessionIdRef s \<and> sessionId r = sessionIdRef s"
proof (induction sigs arbitrary: s)
  case Nil
  then show ?case by (simp add: run_def)
next
  case (Cons y ys)
  let ?s1 = "step s y"
  from new_records_step [of s y]
  obtain n1 where n1: "produced ?s1 = produced s @ n1"
    and i1: "\<forall>r\<in>set n1. pageSessionId r = pageSessionIdRef s \<and> sessionId r = sessionIdRef s"
    by blast
  from ids_step [of s y] have k: "pageSessionIdRef ?s1 = pageSessionIdRef s"
    "sessionIdRef ?s1 = sessionIdRef s" by simp_all
  from n1 i1 Cons.prems k
  have "\<forall>r\<in>set (produced ?s1).
      pageSessionId r = pageSessionIdRef ?s1 \<and> sessionId r = sessionIdRef ?s1" by auto
  from Cons.IH [OF this] k
  have "\<forall>r\<in>set (produced (run ?s1 ys)).
      pageSessionId r = pageSessionIdRef s \<and> sessionId r = sessionIdRef s" by simp
  moreover have "run s (y # ys) = run ?s1 ys" by (simp add: run_def)
  ultimately show ?case by simp
qed

text \<open>
  C7, as the code has it. Two hook instances rendered in one tab, the second starting from
  the storage the first left: both have the same session id, which is the stored value if
  there was one and else the one generated and stored by the first. The page session id is
  built from the clock and a random suffix once, at the first render of a hook instance,
  and never written again: every record of the instance carries it, also after the effect
  is cleaned up and set up again for another page. The page session ids of two hook
  instances are equal exactly when both the millisecond and the suffix coincide, and
  different otherwise.
\<close>

theorem session_identity:
  assumes first: "useExperimentLogger cfg1 st0 t1 r1 q1 = (s1, st1)"
    and second: "useExperimentLogger cfg2 st1 t2 r2 q2 = (s2, st2)"
  shows "sessionIdRef s2 = sessionIdRef s1
    \<and> st1 = Some (sessionIdRef s1) \<and> st2 = st1
    \<and> (truthy st0 \<longrightarrow> st0 = Some (sessionIdRef s1))
    \<and> (\<not> truthy st0 \<longrightarrow> sessionIdRef s1 = ''s_'' @ string_of_int t1 @ ''_'' @ q1)
    \<and> (pageSessionIdRef s1 = pageSessionIdRef s2 \<longleftrightarrow> t1 = t2 \<and> r1 = r2)
    \<and> pageSessionIdRef (run s1 sigs) = pageSessionIdRef s1
    \<and> sessionIdRef (run s1 sigs) = sessionIdRef s1
    \<and> (\<forall>r\<in>set (produced (run s1 sigs)).
          pageSessionId r = pageSessionIdRef s1 \<and> sessionId r = sessionIdRef s1)"
proof -
  from first have a: "sessionIdRef s1 = js_or_str st0 (''s_'' @ string_of_int t1 @ ''_'' @ q1)"
    and b: "st1 = (if truthy st0 then st0 else Some (''s_'' @ string_of_int t1 @ ''_'' @ q1))"
    and c: "pageSessionIdRef s1 = ''pg_'' @ string_of_int t1 @ ''_'' @ r1"
    and p: "produced s1 = []"
    by (auto simp: useExperimentLogger_def Let_def)
  from second have a2: "sessionIdRef s2 = js_or_str st1 (''s_'' @ string_of_int t2 @ ''_'' @ q2)"
    and b2: "st2 = (if truthy st1 then st1 else Some (''s_'' @ string_of_int t2 @ ''_'' @ q2))"
    and c2: "pageSessionIdRef s2 = ''pg_'' @ string_of_int t2 @ ''_'' @ r2"
    by (auto simp: useExperimentLogger_def Let_def)
  from a b have d: "st1 = Some (sessionIdRef s1)" "truthy st1"
    by (auto simp: truthy_def js_or_str_def split: option.splits)
  from d a2 b2 have e: "sessionIdRef s2 = sessionIdRef s1" "st2 = st1"
    by (auto simp: truthy_def js_or_str_def split: option.splits)
  from a b d have f: "truthy st0 \<longrightarrow> st0 = Some (sessionIdRef s1)" by auto
  from a have g: "\<not> truthy st0 \<longrightarrow> sessionIdRef s1 = ''s_'' @ string_of_int t1 @ ''_'' @ q1"
    by (auto simp: truthy_def js_or_str_def split: option.splits)
  from c c2 have h: "pageSessionIdRef s1 = pageSessionIdRef s2 \<longleftrightarrow> t1 = t2 \<and> r1 = r2"
    by (simp only: page_id_eq)
  from p have "\<forall>r\<in>set (produced s1).
      pageSessionId r = pageSessionIdRef s1 \<and> sessionId r = sessionIdRef s1" by simp
  then have i: "\<forall>r\<in>set (produced (run s1 sigs)).
      pageSessionId r = pageSessionIdRef s1 \<and> sessionId r = sessionIdRef s1"
    by (rule ids_records_run)
  from d(1) e f g h ids_run [of s1 sigs] i show ?thesis by blast
qed

text \<open>
  Two hook instances one millisecond apart share the session id and differ in the page
  session id; the page_enter record of the second page view of the first instance carries
  the page session id of that instance.
\<close>

theorem session_identity_witness:
  "sessionIdRef (fst (useExperimentLogger cfg0 (snd (useExperimentLogger cfg0 None 1000 ''k3j9xa'' ''q0w8zz''))
        1001 ''k3j9xa'' ''zzzzzz''))
     = sessionIdRef (fst (useExperimentLogger cfg0 None 1000 ''k3j9xa'' ''q0w8zz''))
   \<and> pageSessionIdRef (fst (useExperimentLogger cfg0 None 1000 ''k3j9xa'' ''q0w8zz''))
     \<noteq> pageSessionIdRef (fst (useExperimentLogger cfg0
          (snd (useExperimentLogger cfg0 None 1000 ''k3j9xa'' ''q0w8zz'')) 1001 ''k3j9xa'' ''zzzzzz''))
   \<and> \<not> truthy None
   \<and> event (produced (run logger0 (firstview0 @ secondview0)) ! 3) = page_enter
   \<and> pageSessionId (produced (run logger0 (firstview0 @ secondview0)) ! 3)
     = pageSessionIdRef logger0"
proof -
  let ?a = "useExperimentLogger cfg0 None 1000 ''k3j9xa'' ''q0w8zz''"
  let ?b = "useExperimentLogger cfg0 (snd ?a) 1001 ''k3j9xa'' ''zzzzzz''"
  let ?p = "produced (run logger0 (firstview0 @ secondview0))"
  have a: "?a = (fst ?a, snd ?a)" by simp
  have b: "?b = (fst ?b, snd ?b)" by simp
  have t: "\<not> truthy None" by (simp add: truthy_def)
  note H = session_identity [OF a b, of "[]"]
  from H have c1: "sessionIdRef (fst ?b) = sessionIdRef (fst ?a)" by (elim conjE)
  from H have "pageSessionIdRef (fst ?a) = pageSessionIdRef (fst ?b)
      \<longleftrightarrow> (1000::int) = 1001 \<and> ''k3j9xa'' = ''k3j9xa''" by (elim conjE)
  then have c2: "pageSessionIdRef (fst ?a) \<noteq> pageSessionIdRef (fst ?b)" by simp
  have l: "length ?p = 6"
    by (simp add: eval_defs firstview0_def secondview0_def cfg_detail_def)
  have c3: "event (?p ! 3) = page_enter"
    by (simp add: eval_defs firstview0_def secondview0_def cfg_detail_def push_record_def
        partial_def)
  from session_identity [OF a b, of "firstview0 @ secondview0", folded logger0_def]
  have "\<forall>r\<in>set ?p. pageSessionId r = pageSessionIdRef logger0
      \<and> sessionId r = sessionIdRef logger0" by (elim conjE)
  moreover from l have "?p ! 3 \<in> set ?p" by simp
  ultimately have c4: "pageSessionId (?p ! 3) = pageSessionIdRef logger0" by blast
  from c1 c2 t c3 c4 show ?thesis by (intro conjI)
qed

text \<open>
  The claim as stated fails when the Listener Registry is mounted twice on one hook
  instance: the page id changes, the effect is cleaned up and set up again, and the
  page_enter of the second page view carries the page session id of the first.
\<close>

theorem remount_keeps_page_id:
  "map event (produced (run logger0 (firstview0 @ secondview0)))
     = [page_enter, heartbeat, page_exit, page_enter, heartbeat, page_exit]
   \<and> map page (produced (run logger0 (firstview0 @ secondview0)))
     = [''login'', ''login'', ''login'', ''smart_detail'', ''smart_detail'', ''smart_detail'']
   \<and> pageSessionId (produced (run logger0 (firstview0 @ secondview0)) ! 3)
     = pageSessionId (produced (run logger0 (firstview0 @ secondview0)) ! 0)
   \<and> map pageSessionId (produced (run logger0 (firstview0 @ secondview0)))
     = replicate 6 (pageSessionIdRef logger0)"
proof -
  have r: "replicate 6 x = [x, x, x, x, x, x]" for x :: string by code_simp
  show ?thesis
    by (simp add: eval_defs firstview0_def secondview0_def cfg_detail_def push_record_def
        partial_def r)
qed

text \<open>Two hook instances rendered in the same millisecond that draw the same suffix.\<close>

lemma same_instant_same_page_id:
  "pageSessionIdRef (fst (useExperimentLogger cfg0 None 1000 ''k3j9xa'' ''q0w8zz''))
     = pageSessionIdRef (fst (useExperimentLogger cfg0
          (snd (useExperimentLogger cfg0 None 1000 ''k3j9xa'' ''q0w8zz'')) 1000 ''k3j9xa'' ''zzzzzz''))"
  by (simp add: useExperimentLogger_def Let_def)

end
